theory Spec2Isabelle
  imports Main "HOL-Library.Sublist"
begin

section \<open>Values received from a relay\<close>

text \<open>
  A relay frame is the result of \<^verbatim>\<open>JSON.parse(msg.data)\<close>. A number is carried by its
  JavaScript rendering \<^verbatim>\<open>String(n)\<close> (the rendering of zero is \<^verbatim>\<open>0\<close>); the handler
  only tests a number for truthiness and renders it inside a template string.
\<close>

datatype json =
    JNull
  | JBool bool
  | JNum string
  | JStr string
  | JArr "json list"
  | JObj "(string \<times> json) list"

text \<open>JavaScript truthiness, as used by \<^verbatim>\<open>data[3] || "Unknown relay error"\<close>.\<close>

fun truthy :: "json \<Rightarrow> bool" where
  "truthy JNull = False"
| "truthy (JBool b) = b"
| "truthy (JNum s) = (s \<noteq> ''0'')"
| "truthy (JStr s) = (s \<noteq> [])"
| "truthy (JArr xs) = True"
| "truthy (JObj kvs) = True"

fun join :: "string \<Rightarrow> string list \<Rightarrow> string" where
  "join sep [] = []"
| "join sep [x] = x"
| "join sep (x # y # ys) = x @ sep @ join sep (y # ys)"

text \<open>
  The rendering of a value inside a template string \<^verbatim>\<open>`${v}`\<close>: an array is joined
  with commas, and \<^verbatim>\<open>null\<close> elements of an array render as the empty string.
\<close>

fun js_string :: "json \<Rightarrow> string" where
  "js_string JNull = ''null''"
| "js_string (JBool b) = (if b then ''true'' else ''false'')"
| "js_string (JNum s) = s"
| "js_string (JStr s) = s"
| "js_string (JArr xs) = join '','' (map (\<lambda>x. if x = JNull then [] else js_string x) xs)"
| "js_string (JObj kvs) = ''[object Object]''"

text \<open>
  \<^verbatim>\<open>v.includes(needle)\<close>: substring search on a string, membership on an array;
  every other value has no such method and the call throws a TypeError (\<open>None\<close>).
\<close>

fun js_includes :: "json \<Rightarrow> string \<Rightarrow> bool option" where
  "js_includes (JStr s) needle = Some (sublist needle s)"
| "js_includes (JArr xs) needle = Some (JStr needle \<in> set xs)"
| "js_includes v needle = None"

section \<open>Records and templates\<close>

text \<open>
  Modelled from the spec: the types \<^verbatim>\<open>NostrEventTemplate\<close> and \<^verbatim>\<open>NostrEvent\<close> of
  \<^verbatim>\<open>lib/nostr.ts\<close> (section 3, Record, and section 4.2): a template carries kind,
  creation time, tags and content; the signer adds the publisher identity, the identifier
  (\<^verbatim>\<open>id\<close> in the source) and the signature.
\<close>

record event_template =
  kind :: nat
  created_at :: nat
  content :: string
  tags :: "string list list"

record nostr_event = event_template +
  pubkey :: string
  event_id :: string
  sig :: string

section \<open>The message collector\<close>

text \<open>
  Modelled from the spec: the class \<^verbatim>\<open>MessageCollector\<close> of
  \<^verbatim>\<open>lib/message-collector.ts\<close> (sections 5 and 9): a single append-only sink of tagged
  entries (category, relay or file key, message). The categories are the ones the command
  asks for with \<^verbatim>\<open>hasMessageType\<close> and the ones of its \<^verbatim>\<open>add...\<close> calls.
\<close>

datatype category =
    RelayRejection
  | ConnectionError
  | FileError
  | FileSuccess
  | EventSuccess

type_synonym entry = "category \<times> string \<times> json"

type_synonym collector = "entry list"

definition addRelayRejection :: "string \<Rightarrow> json \<Rightarrow> collector \<Rightarrow> collector" where
  "addRelayRejection relay msg mc = mc @ [(RelayRejection, relay, msg)]"

definition addConnectionError :: "string \<Rightarrow> json \<Rightarrow> collector \<Rightarrow> collector" where
  "addConnectionError relay msg mc = mc @ [(ConnectionError, relay, msg)]"

definition addFileError :: "string \<Rightarrow> json \<Rightarrow> collector \<Rightarrow> collector" where
  "addFileError p msg mc = mc @ [(FileError, p, msg)]"

definition addFileSuccess :: "string \<Rightarrow> json \<Rightarrow> collector \<Rightarrow> collector" where
  "addFileSuccess p hash mc = mc @ [(FileSuccess, p, hash)]"

definition addEventSuccess :: "string \<Rightarrow> json \<Rightarrow> collector \<Rightarrow> collector" where
  "addEventSuccess p eid mc = mc @ [(EventSuccess, p, eid)]"

section \<open>publishToRelays\<close>

text \<open>
  What the platform delivers to one socket: \<^verbatim>\<open>onopen\<close>, \<^verbatim>\<open>onmessage\<close> (with the
  parsed frame, \<open>None\<close> when \<^verbatim>\<open>JSON.parse\<close> throws), \<^verbatim>\<open>onerror\<close> (with the rendering of
  the error event), \<^verbatim>\<open>onclose\<close>, and the firing of the 5000 ms timer set in \<^verbatim>\<open>onopen\<close>.
\<close>

datatype ws_event =
    Open
  | Message "json option"
  | Error string
  | Close
  | Timeout

text \<open>What a socket handler does to the state shared by all relays of one call.\<close>

datatype relay_note =
    Rejected json
  | Failed string

text \<open>Calls made on the platform's sockets, in order.\<close>

datatype wire_op =
    Construct string
  | Send nat nostr_event
  | CloseSocket nat

text \<open>
  One relay of the call: its URL, whether \<^verbatim>\<open>new WebSocket(relay)\<close> returned a socket,
  whether \<^verbatim>\<open>onopen\<close> has installed the message handler and the timer, and the value
  \<^verbatim>\<open>connectPromise\<close> was resolved with (\<open>None\<close> while it is pending).
\<close>

record conn =
  url :: string
  live :: bool
  opened :: bool
  settled :: "bool option"

text \<open>\<^verbatim>\<open>resolve(b)\<close>: only the first call settles a promise.\<close>

definition resolve :: "bool \<Rightarrow> conn \<Rightarrow> conn" where
  "resolve b c = (if settled c = None then c\<lparr>settled := Some b\<rparr> else c)"

text \<open>
  The body of \<^verbatim>\<open>socket.onmessage\<close>. The result is the new state of the connection, the
  note left in \<^verbatim>\<open>relayErrors\<close> and in the collector, and whether \<^verbatim>\<open>socket.close()\<close> was
  called. An exception inside the \<^verbatim>\<open>try\<close> (a frame that does not parse, a fourth element
  without \<^verbatim>\<open>includes\<close>) is caught and only logged.
\<close>

definition is_accept :: "json \<Rightarrow> bool" where
  "is_accept data =
     (case data of
        JArr xs \<Rightarrow> 3 \<le> length xs \<and> xs ! 0 = JStr ''OK'' \<and> xs ! 2 = JBool True
      | _ \<Rightarrow> False)"

definition is_reject :: "json \<Rightarrow> bool" where
  "is_reject data =
     (case data of
        JArr xs \<Rightarrow> 4 \<le> length xs \<and> xs ! 0 = JStr ''OK'' \<and> xs ! 2 = JBool False
      | _ \<Rightarrow> False)"

definition fourth :: "json \<Rightarrow> json" where
  "fourth data = (case data of JArr xs \<Rightarrow> xs ! 3 | _ \<Rightarrow> JNull)"

definition errorMessage :: "json \<Rightarrow> json" where
  "errorMessage data =
     (if truthy (fourth data) then fourth data else JStr ''Unknown relay error'')"

definition onmessage :: "json option \<Rightarrow> conn \<Rightarrow> conn \<times> relay_note option \<times> bool" where
  "onmessage frame c =
     (case frame of
        None \<Rightarrow> (c, None, False)
      | Some data \<Rightarrow>
          if is_accept data then (resolve True c, None, True)
          else if is_reject data then
            (case js_includes (errorMessage data) ''rate-limit'' of
               None \<Rightarrow> (c, None, False)
             | Some True \<Rightarrow>
                 (resolve False c,
                  Some (Rejected (JStr (''Rate limited: '' @ js_string (errorMessage data)))),
                  True)
             | Some False \<Rightarrow>
                 (case js_includes (errorMessage data) ''noting too much'' of
                    None \<Rightarrow> (c, None, False)
                  | Some True \<Rightarrow>
                      (resolve False c,
                       Some (Rejected
                         (JStr (''Rate limited: '' @ js_string (errorMessage data)))),
                       True)
                  | Some False \<Rightarrow>
                      (resolve False c, Some (Rejected (errorMessage data)), True)))
          else (c, None, False))"

text \<open>
  The handlers of one socket. The message handler and the timer exist only once
  \<^verbatim>\<open>onopen\<close> has run; the timer is never cleared, so its callback runs whatever the state
  of the promise is.
\<close>

definition handle :: "ws_event \<Rightarrow> conn \<Rightarrow> conn \<times> relay_note option \<times> bool" where
  "handle ev c =
     (case ev of
        Open \<Rightarrow> (c\<lparr>opened := True\<rparr>, None, False)
      | Message frame \<Rightarrow> if opened c then onmessage frame c else (c, None, False)
      | Timeout \<Rightarrow>
          if opened c
          then (resolve False c, Some (Failed ''Timeout waiting for response''), True)
          else (c, None, False)
      | Error e \<Rightarrow> (resolve False c, Some (Failed (''WebSocket error: '' @ e)), False)
      | Close \<Rightarrow> (resolve False c, None, False))"

text \<open>
  The state of one call: the connections in the order of \<^verbatim>\<open>relays\<close>, \<^verbatim>\<open>successCount\<close>,
  \<^verbatim>\<open>relayErrors\<close>, the optional \<^verbatim>\<open>messageCollector\<close> argument, and the socket calls made.
\<close>

record pub_state =
  conns :: "conn list"
  successCount :: nat
  relayErrors :: "string \<rightharpoonup> json"
  messageCollector :: "collector option"
  wire :: "wire_op list"

definition record_note :: "string \<Rightarrow> relay_note option \<Rightarrow> pub_state \<Rightarrow> pub_state" where
  "record_note relay n st =
     (case n of
        None \<Rightarrow> st
      | Some (Rejected m) \<Rightarrow>
          st\<lparr>relayErrors := (relayErrors st)(relay \<mapsto> m),
             messageCollector := map_option (addRelayRejection relay m) (messageCollector st)\<rparr>
      | Some (Failed s) \<Rightarrow>
          st\<lparr>relayErrors := (relayErrors st)(relay \<mapsto> JStr s),
             messageCollector :=
               map_option (addConnectionError relay (JStr s)) (messageCollector st)\<rparr>)"

text \<open>
  One event delivered to the socket of relay number \<open>i\<close>. \<^verbatim>\<open>successCount++\<close> runs in the
  continuation of \<^verbatim>\<open>await connectPromise\<close>, once, when the promise is resolved with true.
\<close>

definition step :: "nostr_event \<Rightarrow> nat \<times> ws_event \<Rightarrow> pub_state \<Rightarrow> pub_state" where
  "step evt e st =
     (case e of (i, ev) \<Rightarrow>
        if i < length (conns st) \<and> live (conns st ! i) then
          (let c = conns st ! i;
               (c', n, closing) = handle ev c;
               st1 = record_note (url c) n st
           in st1\<lparr>conns := (conns st)[i := c'],
                  successCount :=
                    (if settled c = None \<and> settled c' = Some True
                     then successCount st + 1 else successCount st),
                  wire := wire st @ (if ev = Open then [Send i evt] else [])
                                  @ (if closing then [CloseSocket i] else [])\<rparr>)
        else st)"

fun run :: "nostr_event \<Rightarrow> pub_state \<Rightarrow> (nat \<times> ws_event) list \<Rightarrow> pub_state" where
  "run evt st [] = st"
| "run evt st (e # es) = run evt (step evt e st) es"

text \<open>
  The synchronous part of \<^verbatim>\<open>relays.map(async (relay) => ...)\<close>: one constructor call per
  relay, in order. \<open>ctor relay = Some e\<close> says that \<^verbatim>\<open>new WebSocket(relay)\<close> throws \<open>e\<close>;
  the \<^verbatim>\<open>catch\<close> of that relay then records the failure and its task is over.
\<close>

definition connect :: "(string \<Rightarrow> string option) \<Rightarrow> pub_state \<Rightarrow> string \<Rightarrow> pub_state" where
  "connect ctor st relay =
     (case ctor relay of
        None \<Rightarrow>
          st\<lparr>conns := conns st @ [\<lparr>url = relay, live = True, opened = False, settled = None\<rparr>],
             wire := wire st @ [Construct relay]\<rparr>
      | Some e \<Rightarrow>
          (record_note relay (Some (Failed (''Connection failed: '' @ e))) st)
            \<lparr>conns := conns st @ [\<lparr>url = relay, live = False, opened = False, settled = None\<rparr>],
             wire := wire st @ [Construct relay]\<rparr>)"

definition start :: "(string \<Rightarrow> string option) \<Rightarrow> string list \<Rightarrow> collector option \<Rightarrow> pub_state" where
  "start ctor urls mc =
     foldl (connect ctor)
       \<lparr>conns = [], successCount = 0, relayErrors = Map.empty, messageCollector = mc, wire = []\<rparr>
       urls"

text \<open>The task of one relay is over when its constructor threw or its promise is settled.\<close>

definition finished :: "conn \<Rightarrow> bool" where
  "finished c = (\<not> live c \<or> settled c \<noteq> None)"

text \<open>
  \<^verbatim>\<open>publishToRelays(event, relays, messageCollector)\<close> under the events \<open>trace\<close>. The first
  component is the value the returned promise resolves with, \<open>None\<close> when
  \<^verbatim>\<open>Promise.all\<close> never resolves because some socket never settles; the second is the state
  the events leave behind (the collector outlives the call).
\<close>

definition publishToRelays ::
  "(string \<Rightarrow> string option) \<Rightarrow> nostr_event \<Rightarrow> string list \<Rightarrow> collector option \<Rightarrow>
   (nat \<times> ws_event) list \<Rightarrow> bool option \<times> pub_state" where
  "publishToRelays ctor evt urls mc trace =
     (let st = run evt (start ctor urls mc) trace
      in (if list_all finished (conns st) then Some (0 < successCount st) else None, st))"

section \<open>The outcome of one relay\<close>

text \<open>
  The events of the socket of relay number \<open>i\<close>, and the outcome they give that relay
  (section 3, RelayOutcome): the first event that settles the publish decides. A socket
  that is closed with no error event is a failure of its own kind.
\<close>

datatype relay_outcome =
    Accepted
  | RejectedWith json
  | TimedOut
  | TransportError string
  | ClosedSilently

definition events_of :: "nat \<Rightarrow> (nat \<times> ws_event) list \<Rightarrow> ws_event list" where
  "events_of i trace = map snd (filter (\<lambda>e. fst e = i) trace)"

text \<open>
  The reason kept for an \<^verbatim>\<open>OK ... false\<close> frame: the message, prefixed when it names a
  rate limit; \<open>None\<close> when the fourth element is neither text nor a list.
\<close>

definition reason :: "json \<Rightarrow> json option" where
  "reason data =
     (case js_includes (errorMessage data) ''rate-limit'' of
        None \<Rightarrow> None
      | Some a \<Rightarrow>
          (case js_includes (errorMessage data) ''noting too much'' of
             None \<Rightarrow> None
           | Some b \<Rightarrow>
               Some (if a \<or> b then JStr (''Rate limited: '' @ js_string (errorMessage data))
                     else errorMessage data)))"

definition verdict :: "json option \<Rightarrow> relay_outcome option" where
  "verdict frame =
     (case frame of
        None \<Rightarrow> None
      | Some data \<Rightarrow>
          if is_accept data then Some Accepted
          else if is_reject data then map_option RejectedWith (reason data)
          else None)"

fun outcome :: "bool \<Rightarrow> ws_event list \<Rightarrow> relay_outcome option" where
  "outcome is_open [] = None"
| "outcome is_open (Open # es) = outcome True es"
| "outcome is_open (Message frame # es) =
     (if is_open then (case verdict frame of Some v \<Rightarrow> Some v | None \<Rightarrow> outcome is_open es)
      else outcome is_open es)"
| "outcome is_open (Timeout # es) = (if is_open then Some TimedOut else outcome is_open es)"
| "outcome is_open (Error e # es) = Some (TransportError (''WebSocket error: '' @ e))"
| "outcome is_open (Close # es) = Some ClosedSilently"

definition relay_result ::
  "(string \<Rightarrow> string option) \<Rightarrow> string list \<Rightarrow> (nat \<times> ws_event) list \<Rightarrow> nat \<Rightarrow>
   relay_outcome option" where
  "relay_result ctor urls trace i =
     (case ctor (urls ! i) of
        Some e \<Rightarrow> Some (TransportError (''Connection failed: '' @ e))
      | None \<Rightarrow> outcome False (events_of i trace))"

text \<open>
  The entry the settling event of a relay leaves in the collector; a close without an
  error event leaves none.
\<close>

fun recorded :: "string \<Rightarrow> relay_outcome \<Rightarrow> entry option" where
  "recorded relay Accepted = None"
| "recorded relay (RejectedWith m) = Some (RelayRejection, relay, m)"
| "recorded relay TimedOut = Some (ConnectionError, relay, JStr ''Timeout waiting for response'')"
| "recorded relay (TransportError d) = Some (ConnectionError, relay, JStr d)"
| "recorded relay ClosedSilently = None"

section \<open>Files, options and the project\<close>

text \<open>
  Modelled from the spec: the type \<^verbatim>\<open>FileEntry\<close> of \<^verbatim>\<open>lib/nostr.ts\<close> (section 3): logical
  path, size in bytes (\<^verbatim>\<open>size\<close> in the source), content hash, media type, content bytes,
  and, for a remote entry, the announcement record it comes from.
\<close>

record file_entry =
  path :: string
  size_bytes :: nat
  sha256 :: "string option"
  contentType :: "string option"
  bytes :: "string option"
  event :: "nostr_event option"

text \<open>The interface \<^verbatim>\<open>UploadCommandOptions\<close>.\<close>

record options =
  force :: bool
  verbose :: bool
  purge :: bool
  servers :: "string option"
  relays :: "string option"
  privatekey :: "string option"
  bunker :: "string option"
  nbunksec :: "string option"
  concurrency :: nat
  fallback :: "string option"
  publishServerList :: bool
  publishRelayList :: bool
  publishProfile :: bool
  nonInteractive :: bool

text \<open>
  Modelled from the spec: the project configuration read by \<^verbatim>\<open>lib/config.ts\<close>, with the
  fields the command uses (\<^verbatim>\<open>relays\<close>, \<^verbatim>\<open>servers\<close>, \<^verbatim>\<open>fallback\<close> and the two publish flags
  carry the prefix \<open>cfg\<close> here). The two lists are taken to be present. The profile is
  carried by the JSON text that \<^verbatim>\<open>JSON.stringify\<close> gives for its fields.
\<close>

record project_data =
  cfg_relays :: "string list"
  cfg_servers :: "string list"
  bunkerPubkey :: "string option"
  cfg_fallback :: "string option"
  cfg_publishRelayList :: bool
  cfg_publishServerList :: bool
  profile :: "string option"

record project_context =
  projectData :: "project_data option"
  privateKey :: "string option"

text \<open>
  \<^verbatim>\<open>signer.signEvent(template)\<close>: the signed record, or the message of the error it
  throws.
\<close>

type_synonym signer = "event_template \<Rightarrow> string + nostr_event"

text \<open>One element of the result of \<^verbatim>\<open>processUploads\<close>.\<close>

record upload_result =
  uploaded :: file_entry
  success :: bool
  eventPublished :: bool
  eventId :: "string option"
  serverResults :: "(string \<times> bool) list"
  error :: "string option"

section \<open>The world outside the command\<close>

text \<open>
  Every call the command makes into a library or the platform, with the answer it gets.
  An answer \<open>Inl e\<close> is an exception with message \<open>e\<close>. The calls are taken to settle:
  only \<^verbatim>\<open>publishToRelays\<close>, which is part of the command's file, can wait forever.
  \<^item> \<open>now k\<close> is the \<open>k\<close>-th reading of \<^verbatim>\<open>Date.now()\<close>, in milliseconds;
  \<^item> \<open>webSocket\<close> and \<open>traffic\<close> give, for a record handed to \<^verbatim>\<open>publishToRelays\<close>, the
    constructor failures and the socket events of that call;
  \<^item> \<open>btoa_json\<close> is \<^verbatim>\<open>btoa(JSON.stringify(record))\<close>, \<open>None\<close> when \<^verbatim>\<open>btoa\<close> throws;
  \<^item> \<open>errorText\<close> is the clean-up of an upload error message by the regular expressions of
    the summary.
\<close>

record world =
  isInteractive :: bool
  readProjectFile :: "string + project_data option"
  setupProject :: "string + project_context"
  newPrivateKeySigner :: "string \<Rightarrow> string + signer \<times> string"
  importFromNbunk :: "string \<Rightarrow> string + signer \<times> string"
  createNip46ClientFromUrl :: "string \<Rightarrow> string + signer \<times> string"
  getNbunk :: "string \<Rightarrow> string option"
  inputPrompt :: "string + string"
  confirmPrompt :: "string + bool"
  copy :: "string \<Rightarrow> string \<Rightarrow> string option"
  getLocalFiles :: "string \<Rightarrow> string + file_entry list \<times> string list"
  listRemoteFiles :: "string list \<Rightarrow> string \<Rightarrow> string + file_entry list"
  fetchHEAD :: "string \<Rightarrow> string + bool"
  loadFileData :: "string \<Rightarrow> file_entry \<Rightarrow> string + file_entry"
  processUploads ::
    "file_entry list \<Rightarrow> string \<Rightarrow> string list \<Rightarrow> string list \<Rightarrow> nat \<Rightarrow> string + upload_result list"
  errorText :: "string \<Rightarrow> string"
  fetchDELETE :: "string \<Rightarrow> string \<Rightarrow> string + bool"
  btoa_json :: "nostr_event \<Rightarrow> string option"
  npubEncode :: "string \<Rightarrow> string option"
  now :: "nat \<Rightarrow> nat"
  webSocket :: "string \<Rightarrow> string option"
  traffic :: "nostr_event \<Rightarrow> (nat \<times> ws_event) list"

section \<open>Effects of the command\<close>

text \<open>
  What the command does to the outside, in order. \<open>Say\<close> is a line written with
  \<^verbatim>\<open>console.error\<close>, or a line of \<^verbatim>\<open>console.log\<close> that reports an ambiguity, a decision
  to stop or the end of the run, without its colour and line breaks; listings, counts,
  progress bars, status lines, summaries and the logger's output are left out.
\<close>

datatype action =
    Say string
  | CopyFallback string string
  | Scan string
  | Fetch "string list" string
  | Head string
  | Ask string
  | Load file_entry
  | Upload "file_entry list" "string list" "string list" nat
  | Sign event_template
  | Publish nostr_event "string list"
  | Delete string string

text \<open>
  How a run ends: \<^verbatim>\<open>Deno.exit(n)\<close>, a normal return of \<^verbatim>\<open>uploadCommand\<close> (the process
  then ends with code 0), or a wait that never ends.
\<close>

datatype ending =
    Exited nat
  | Returned
  | Hung

datatype 'a res =
    Val 'a
  | Throw string
  | Stop ending

record run_state =
  trail :: "action list"
  collected :: collector
  ticks :: nat

type_synonym 'a prog = "run_state \<Rightarrow> 'a res \<times> run_state"

definition ret :: "'a \<Rightarrow> 'a prog" where
  "ret x s = (Val x, s)"

definition bind :: "'a prog \<Rightarrow> ('a \<Rightarrow> 'b prog) \<Rightarrow> 'b prog" where
  "bind m k s =
     (case m s of
        (Val x, s') \<Rightarrow> k x s'
      | (Throw e, s') \<Rightarrow> (Throw e, s')
      | (Stop h, s') \<Rightarrow> (Stop h, s'))"

definition emit :: "action \<Rightarrow> unit prog" where
  "emit a s = (Val (), s\<lparr>trail := trail s @ [a]\<rparr>)"

definition exit :: "nat \<Rightarrow> 'a prog" where
  "exit n s = (Stop (Exited n), s)"

definition attempt :: "string + 'a \<Rightarrow> 'a prog" where
  "attempt r s = (case r of Inl e \<Rightarrow> (Throw e, s) | Inr x \<Rightarrow> (Val x, s))"

text \<open>\<^verbatim>\<open>try { m } catch (error) { h(message of error) }\<close>.\<close>

definition catch :: "'a prog \<Rightarrow> (string \<Rightarrow> 'a prog) \<Rightarrow> 'a prog" where
  "catch m h s = (case m s of (Throw e, s') \<Rightarrow> h e s' | r \<Rightarrow> r)"

text \<open>\<^verbatim>\<open>Math.floor(Date.now() / 1000)\<close>.\<close>

definition seconds :: "world \<Rightarrow> nat prog" where
  "seconds w s = (Val (now w (ticks s) div 1000), s\<lparr>ticks := ticks s + 1\<rparr>)"

section \<open>Strings\<close>

text \<open>Truthiness of an optional string: \<^verbatim>\<open>undefined\<close> and \<^verbatim>\<open>""\<close> are falsy.\<close>

definition truthy_str :: "string option \<Rightarrow> bool" where
  "truthy_str v = (case v of None \<Rightarrow> False | Some t \<Rightarrow> t \<noteq> [])"

definition or_else :: "string option \<Rightarrow> string option \<Rightarrow> string option" where
  "or_else a b = (if truthy_str a then a else b)"

text \<open>\<^verbatim>\<open>text.split(",")\<close>.\<close>

fun split_comma :: "string \<Rightarrow> string list" where
  "split_comma [] = [[]]"
| "split_comma (c # cs) =
     (if c = CHR '','' then [] # split_comma cs
      else (case split_comma cs of [] \<Rightarrow> [[c]] | x # xs \<Rightarrow> (c # x) # xs))"

text \<open>\<^verbatim>\<open>server.endsWith("/") ? server : `${server}/`\<close>.\<close>

definition serverUrl :: "string \<Rightarrow> string" where
  "serverUrl server = (if suffix ''/'' server then server else server @ ''/'')"

text \<open>
  The decimal rendering of a count of seconds in a template string (JavaScript writes
  integers below \<open>10\<^sup>2\<^sup>1\<close> this way).
\<close>

definition digit :: "nat \<Rightarrow> char" where
  "digit n = ''0123456789'' ! (n mod 10)"

fun dec :: "nat \<Rightarrow> string" where
  "dec n = (if n < 10 then [digit n] else dec (n div 10) @ [digit n])"

declare dec.simps [simp del]

section \<open>uploadCommand: configuration and signer\<close>

definition defaultProject :: project_data where
  "defaultProject =
     \<lparr>cfg_relays = [], cfg_servers = [], bunkerPubkey = None, cfg_fallback = None,
      cfg_publishRelayList = False, cfg_publishServerList = False, profile = None\<rparr>"

text \<open>
  \<^verbatim>\<open>options.nonInteractive ? { projectData: readProjectFile() || {...} } : await setupProject()\<close>
\<close>

definition loadProject :: "world \<Rightarrow> options \<Rightarrow> project_context prog" where
  "loadProject w opts =
     (if nonInteractive opts then
        bind (attempt (readProjectFile w)) (\<lambda>found.
          ret \<lparr>projectData = Some (case found of None \<Rightarrow> defaultProject | Some pd \<Rightarrow> pd),
               privateKey = None\<rparr>)
      else attempt (setupProject w))"

definition requireProject :: "project_context \<Rightarrow> project_data prog" where
  "requireProject ctx =
     (case projectData ctx of
        None \<Rightarrow>
          bind (emit (Say
            ''No project configuration found. Please run the interactive setup first.''))
            (\<lambda>_. exit 1)
      | Some pd \<Rightarrow> ret pd)"

text \<open>The prompt for a fresh bunker URL, followed by the connection to it.\<close>

definition askBunker :: "world \<Rightarrow> (signer \<times> string) prog" where
  "askBunker w =
     bind (emit (Ask ''Enter your NSEC bunker URL (bunker://...):'')) (\<lambda>_.
     bind (attempt (inputPrompt w)) (\<lambda>bunkerUrl.
     attempt (createNip46ClientFromUrl w bunkerUrl)))"

text \<open>The chain that chooses the signer and the publisher's key.\<close>

definition chooseSigner ::
  "world \<Rightarrow> options \<Rightarrow> project_context \<Rightarrow> project_data \<Rightarrow> (signer \<times> string) prog" where
  "chooseSigner w opts ctx pd =
     (if truthy_str (privatekey opts) then
        attempt (newPrivateKeySigner w (the (privatekey opts)))
      else if truthy_str (nbunksec opts) then
        catch (attempt (importFromNbunk w (the (nbunksec opts))))
          (\<lambda>e. bind (emit (Say (''Failed to use nbunksec: '' @ e))) (\<lambda>_. exit 1))
      else if truthy_str (bunker opts) then
        attempt (createNip46ClientFromUrl w (the (bunker opts)))
      else if truthy_str (privateKey ctx) then
        attempt (newPrivateKeySigner w (the (privateKey ctx)))
      else if truthy_str (bunkerPubkey pd) then
        (if truthy_str (getNbunk w (the (bunkerPubkey pd))) then
           catch (attempt (importFromNbunk w (the (getNbunk w (the (bunkerPubkey pd))))))
             (\<lambda>e. askBunker w)
         else askBunker w)
      else
        bind (emit (Say (''No private key or bunker pubkey available. '' @
                         ''Please provide a private key or configure a bunker.'')))
          (\<lambda>_. exit 1))"

section \<open>uploadCommand: local and remote files\<close>

definition copyFallback :: "world \<Rightarrow> options \<Rightarrow> project_data \<Rightarrow> string \<Rightarrow> unit prog" where
  "copyFallback w opts pd fileOrFolder =
     (case or_else (fallback opts) (cfg_fallback pd) of
        None \<Rightarrow> ret ()
      | Some fallbackFor404 \<Rightarrow>
          if fallbackFor404 = [] then ret ()
          else
            bind (emit (CopyFallback fileOrFolder fallbackFor404)) (\<lambda>_.
              case copy w fileOrFolder fallbackFor404 of
                None \<Rightarrow> ret ()
              | Some e \<Rightarrow> attempt (Inl e)))"

definition scanLocal :: "world \<Rightarrow> string \<Rightarrow> (file_entry list) prog" where
  "scanLocal w fileOrFolder =
     bind (emit (Scan fileOrFolder)) (\<lambda>_.
     bind (attempt (getLocalFiles w fileOrFolder)) (\<lambda>(localFiles, ignoredFilePaths).
       if localFiles = [] \<and> ignoredFilePaths \<noteq> [] then
         bind (emit (Say
           ''All local files were ignored by .nsite-ignore. Nothing to upload.''))
           (\<lambda>_. exit 0)
       else if localFiles = [] then
         bind (emit (Say (''No files found in local source folder '' @ fileOrFolder @ ''.'')))
           (\<lambda>_. exit 1)
       else ret localFiles))"

definition fetchRemote :: "world \<Rightarrow> string list \<Rightarrow> string \<Rightarrow> (file_entry list) prog" where
  "fetchRemote w relayList publisherPubkey =
     bind (emit (Fetch relayList publisherPubkey)) (\<lambda>_.
       attempt (listRemoteFiles w relayList publisherPubkey))"

text \<open>
  The loop of HEAD requests for one hash: the first server that answers 2xx ends it; an
  exception of \<^verbatim>\<open>fetch\<close> is swallowed.
\<close>

fun headServers :: "world \<Rightarrow> string \<Rightarrow> string list \<Rightarrow> (string option) prog" where
  "headServers w h [] = ret None"
| "headServers w h (server # rest) =
     bind (emit (Head (serverUrl server @ h))) (\<lambda>_.
       case fetchHEAD w (serverUrl server @ h) of
         Inr True \<Rightarrow> ret (Some server)
       | _ \<Rightarrow> headServers w h rest)"

definition mayExist :: string where
  "mayExist = ''Files may already exist on servers. Use --force to override.''"

text \<open>
  The check made when no remote file was found; its result is
  \<^verbatim>\<open>fileComparisonMessage\<close>.
\<close>

definition probe ::
  "world \<Rightarrow> options \<Rightarrow> file_entry list \<Rightarrow> file_entry list \<Rightarrow> string list \<Rightarrow> string prog" where
  "probe w opts localFiles remoteFiles serverList =
     (if remoteFiles = [] then
        (case localFiles of
           [] \<Rightarrow> ret []
         | checkFilePath # _ \<Rightarrow>
             if truthy_str (sha256 checkFilePath) then
               bind (headServers w (the (sha256 checkFilePath)) serverList) (\<lambda>found.
                 case found of
                   None \<Rightarrow> ret []
                 | Some server \<Rightarrow>
                     if isInteractive w then ret mayExist
                     else
                       bind (emit (Say (''Files may already exist on '' @ server @
                              '' but relay data couldn't be retrieved.''))) (\<lambda>_.
                       bind (emit (Say ''To force re-upload, use --force flag.'')) (\<lambda>_.
                         ret (if \<not> force opts then mayExist else []))))
             else ret [])
      else ret [])"

text \<open>
  Modelled from the spec: \<^verbatim>\<open>compareFiles\<close> of \<^verbatim>\<open>lib/files.ts\<close> (section 3, Diff): a local
  file is unchanged iff a remote entry has its path and hash, to upload otherwise; a remote
  entry is to delete iff no local file has its path. The order of the inputs is kept.
\<close>

definition matches :: "file_entry \<Rightarrow> file_entry \<Rightarrow> bool" where
  "matches a b = (path a = path b \<and> sha256 a = sha256 b)"

definition compareFiles ::
  "file_entry list \<Rightarrow> file_entry list \<Rightarrow> file_entry list \<times> file_entry list \<times> file_entry list" where
  "compareFiles localFiles remoteFiles =
     (filter (\<lambda>l. \<not> list_ex (matches l) remoteFiles) localFiles,
      filter (\<lambda>l. list_ex (matches l) remoteFiles) localFiles,
      filter (\<lambda>r. \<not> list_ex (\<lambda>l. path l = path r) localFiles) remoteFiles)"

section \<open>uploadCommand: nothing to do, or force\<close>

definition nothingToDo :: "world \<Rightarrow> 'a prog" where
  "nothingToDo w =
     bind (emit (Say (if isInteractive w then ''Upload process completed. No changes needed.''
                      else ''Nothing to do. Exiting.''))) (\<lambda>_.
       exit 0)"

text \<open>
  The block entered when there is nothing to transfer (and nothing to purge), or when the
  check above left a message and \<^verbatim>\<open>--force\<close> is absent. Its result is \<^verbatim>\<open>toTransfer\<close>.
\<close>

definition decide ::
  "world \<Rightarrow> options \<Rightarrow> file_entry list \<Rightarrow> string \<Rightarrow>
   file_entry list \<Rightarrow> file_entry list \<Rightarrow> file_entry list \<Rightarrow> (file_entry list) prog" where
  "decide w opts remoteFiles fileComparisonMessage toTransfer existing toDelete =
     (if (toTransfer = [] \<and> (\<not> purge opts \<or> toDelete = [])) \<or>
         (remoteFiles = [] \<and> fileComparisonMessage \<noteq> [] \<and> \<not> force opts)
      then
        bind (emit (Say (if isInteractive w
                then ''No changes detected. Use --force to upload all files anyway.''
                else ''No files to upload or delete. Use --force to upload all files.''))) (\<lambda>_.
          if \<not> nonInteractive opts then
            bind (emit (Ask ''Do you want to force upload all files anyway?'')) (\<lambda>_.
            bind (attempt (confirmPrompt w)) (\<lambda>forceUpload.
              if forceUpload then ret (toTransfer @ existing)
              else nothingToDo w))
          else if force opts then ret (toTransfer @ existing)
          else nothingToDo w)
      else ret toTransfer)"

section \<open>uploadCommand: uploads\<close>

definition collect :: "(collector \<Rightarrow> collector) \<Rightarrow> unit prog" where
  "collect upd s = (Val (), s\<lparr>collected := upd (collected s)\<rparr>)"

text \<open>The loop that loads the content of the files to transfer.\<close>

fun loadFiles :: "world \<Rightarrow> string \<Rightarrow> file_entry list \<Rightarrow> (file_entry list) prog" where
  "loadFiles w fileOrFolder [] = ret []"
| "loadFiles w fileOrFolder (f # fs) =
     bind (emit (Load f)) (\<lambda>_.
       case loadFileData w fileOrFolder f of
         Inr fileWithData \<Rightarrow>
           bind (loadFiles w fileOrFolder fs) (\<lambda>others. ret (fileWithData # others))
       | Inl message \<Rightarrow>
           bind (emit (Say (''Failed to load file '' @ path f @ '': '' @ message))) (\<lambda>_.
           bind (collect (addFileError (path f) (JStr message))) (\<lambda>_.
             loadFiles w fileOrFolder fs)))"

text \<open>What the summary of the results leaves in the collector.\<close>

fun noteSuccesses :: "upload_result list \<Rightarrow> collector \<Rightarrow> collector" where
  "noteSuccesses [] c = c"
| "noteSuccesses (r # rs) c =
     noteSuccesses rs
       (if success r then
          (let c1 = (if truthy_str (sha256 (uploaded r))
                     then addFileSuccess (path (uploaded r)) (JStr (the (sha256 (uploaded r)))) c
                     else c)
           in if truthy_str (eventId r)
              then addEventSuccess (path (uploaded r)) (JStr (the (eventId r))) c1 else c1)
        else c)"

fun noteFailures :: "world \<Rightarrow> upload_result list \<Rightarrow> collector \<Rightarrow> collector" where
  "noteFailures w [] c = c"
| "noteFailures w (r # rs) c =
     noteFailures w rs
       (if success r then c
        else addFileError (path (uploaded r))
               (JStr (errorText w (if truthy_str (error r) then the (error r)
                                   else ''Unknown error''))) c)"

definition summarize :: "world \<Rightarrow> upload_result list \<Rightarrow> unit prog" where
  "summarize w results =
     collect (if isInteractive w then noteSuccesses results else noteFailures w results)"

definition uploadFiles ::
  "world \<Rightarrow> options \<Rightarrow> string \<Rightarrow> string list \<Rightarrow> string list \<Rightarrow> file_entry list \<Rightarrow> unit prog" where
  "uploadFiles w opts fileOrFolder serverList relayList toTransfer =
     (if toTransfer \<noteq> [] then
        bind (loadFiles w fileOrFolder toTransfer) (\<lambda>filesToUpload.
          if filesToUpload = [] then
            bind (emit (Say ''No files could be loaded for upload.'')) (\<lambda>_. exit 1)
          else
            bind (emit (Upload filesToUpload serverList relayList (concurrency opts))) (\<lambda>_.
            bind (attempt (processUploads w filesToUpload fileOrFolder serverList relayList
                             (concurrency opts))) (\<lambda>results.
              summarize w results)))
      else ret ())"

section \<open>uploadCommand: purge\<close>

text \<open>
  A call of \<^verbatim>\<open>publishToRelays\<close> with the command's collector. Its result is awaited: if
  it never comes, the run hangs.
\<close>

definition publish :: "world \<Rightarrow> nostr_event \<Rightarrow> string list \<Rightarrow> bool prog" where
  "publish w evt relayList s =
     (let (answer, st) =
            publishToRelays (webSocket w) evt relayList (Some (collected s)) (traffic w evt);
          s' = s\<lparr>trail := trail s @ [Publish evt relayList],
                 collected := (case messageCollector st of None \<Rightarrow> collected s | Some c \<Rightarrow> c)\<rparr>
      in case answer of None \<Rightarrow> (Stop Hung, s') | Some b \<Rightarrow> (Val b, s'))"

definition signEvent :: "signer \<Rightarrow> event_template \<Rightarrow> nostr_event prog" where
  "signEvent sg t = bind (emit (Sign t)) (\<lambda>_. attempt (sg t))"

definition deletionEventTemplate :: "nat \<Rightarrow> nat \<Rightarrow> string \<Rightarrow> string \<Rightarrow> event_template" where
  "deletionEventTemplate t1 t2 eid p =
     \<lparr>kind = 5, created_at = t1,
      content = ''nsyte: delete file event: '' @ p,
      tags = [[''e'', eid], [''expiration'', dec (t2 + 60 * 2)]]\<rparr>"

definition deleteAuthTemplate :: "nat \<Rightarrow> nat \<Rightarrow> string \<Rightarrow> string \<Rightarrow> event_template" where
  "deleteAuthTemplate t1 t2 h p =
     \<lparr>kind = 24242, created_at = t1,
      content = ''nsyte: delete file: '' @ h @ '' | '' @ p,
      tags = [[''t'', ''delete''], [''x'', h], [''expiration'', dec (t2 + 60 * 2)]]\<rparr>"

text \<open>
  The body of the loop over the servers, inside its own \<^verbatim>\<open>try\<close>: whatever is thrown
  (by the signer, by \<^verbatim>\<open>btoa\<close>, by \<^verbatim>\<open>fetch\<close>) is logged and the loop goes on.
\<close>

definition deleteFromServer ::
  "world \<Rightarrow> signer \<Rightarrow> file_entry \<Rightarrow> string \<Rightarrow> string \<Rightarrow> unit prog" where
  "deleteFromServer w sg f h server =
     catch
       (bind (seconds w) (\<lambda>t1.
        bind (seconds w) (\<lambda>t2.
        bind (signEvent sg (deleteAuthTemplate t1 t2 h (path f))) (\<lambda>deleteAuth.
          case btoa_json w deleteAuth of
            None \<Rightarrow> attempt (Inl ''InvalidCharacterError'')
          | Some b \<Rightarrow>
              bind (emit (Delete (serverUrl server @ h) (''Nostr '' @ b))) (\<lambda>_.
              bind (attempt (fetchDELETE w (serverUrl server @ h) (''Nostr '' @ b)))
                (\<lambda>response. ret ()))))))
       (\<lambda>e. ret ())"

fun deleteFromServers ::
  "world \<Rightarrow> signer \<Rightarrow> file_entry \<Rightarrow> string \<Rightarrow> string list \<Rightarrow> unit prog" where
  "deleteFromServers w sg f h [] = ret ()"
| "deleteFromServers w sg f h (server # rest) =
     bind (deleteFromServer w sg f h server) (\<lambda>_. deleteFromServers w sg f h rest)"

text \<open>
  The body of the loop over \<^verbatim>\<open>toDelete\<close>, inside its \<^verbatim>\<open>try\<close>. The result says whether
  the entry counts as completed (\<open>True\<close>) or as failed (\<open>False\<close>).
\<close>

definition purgeFile ::
  "world \<Rightarrow> signer \<Rightarrow> string list \<Rightarrow> string list \<Rightarrow> file_entry \<Rightarrow> bool prog" where
  "purgeFile w sg relayList serverList f =
     catch
       (if event f = None \<or> \<not> truthy_str (sha256 f) then ret False
        else
          bind (seconds w) (\<lambda>t1.
          bind (seconds w) (\<lambda>t2.
          bind (signEvent sg
                  (deletionEventTemplate t1 t2 (event_id (the (event f))) (path f)))
            (\<lambda>deletionEvent.
          bind (publish w deletionEvent relayList) (\<lambda>_.
          bind (deleteFromServers w sg f (the (sha256 f)) serverList) (\<lambda>_.
            ret True))))))
       (\<lambda>e. ret False)"

fun purgeLoop ::
  "world \<Rightarrow> signer \<Rightarrow> string list \<Rightarrow> string list \<Rightarrow> file_entry list \<Rightarrow> nat \<times> nat \<Rightarrow>
   (nat \<times> nat) prog" where
  "purgeLoop w sg relayList serverList [] counts = ret counts"
| "purgeLoop w sg relayList serverList (f # fs) counts =
     bind (purgeFile w sg relayList serverList f) (\<lambda>completed.
       purgeLoop w sg relayList serverList fs
         (if completed then (fst counts + 1, snd counts) else (fst counts, snd counts + 1)))"

definition purgeFiles ::
  "world \<Rightarrow> options \<Rightarrow> signer \<Rightarrow> string list \<Rightarrow> string list \<Rightarrow> file_entry list \<Rightarrow> unit prog" where
  "purgeFiles w opts sg relayList serverList toDelete =
     (if purge opts \<and> toDelete \<noteq> [] then
        bind (purgeLoop w sg relayList serverList toDelete (0, 0)) (\<lambda>counts. ret ())
      else ret ())"

section \<open>uploadCommand: lists and profile\<close>

definition client_tag :: "string list" where
  "client_tag = [''client'', ''nsyte'']"

definition publishExtra ::
  "world \<Rightarrow> signer \<Rightarrow> string list \<Rightarrow> string \<Rightarrow> nat \<Rightarrow> string list list \<Rightarrow> string \<Rightarrow> unit prog" where
  "publishExtra w sg relayList what k ts c =
     catch
       (bind (seconds w) (\<lambda>t.
        bind (signEvent sg \<lparr>kind = k, created_at = t, content = c, tags = ts\<rparr>) (\<lambda>signed.
        bind (publish w signed relayList) (\<lambda>published. ret ()))))
       (\<lambda>e. emit (Say (''Failed to publish '' @ what @ '': '' @ e)))"

definition publishExtras ::
  "world \<Rightarrow> options \<Rightarrow> project_data \<Rightarrow> signer \<Rightarrow> string list \<Rightarrow> string list \<Rightarrow> unit prog" where
  "publishExtras w opts pd sg relayList serverList =
     (if publishRelayList opts \<or> publishServerList opts \<or> publishProfile opts then
        bind (if publishRelayList opts
              then publishExtra w sg relayList ''relay list'' 10002
                     (map (\<lambda>u. [''r'', u]) relayList @ [client_tag]) []
              else ret ()) (\<lambda>_.
        bind (if publishServerList opts
              then publishExtra w sg relayList ''server list'' 10063
                     (map (\<lambda>u. [''server'', u]) serverList @ [client_tag]) []
              else ret ()) (\<lambda>_.
          if publishProfile opts \<and> profile pd \<noteq> None
          then publishExtra w sg relayList ''profile'' 0 [client_tag] (the (profile pd))
          else ret ()))
      else ret ())"

definition nsiteUrl :: "world \<Rightarrow> string \<Rightarrow> string" where
  "nsiteUrl w publisherPubkey =
     ''https://'' @
     (case npubEncode w publisherPubkey of None \<Rightarrow> publisherPubkey | Some npub \<Rightarrow> npub) @
     ''.nsite.lol''"

section \<open>uploadCommand\<close>

text \<open>What the first part of the command establishes.\<close>

record plan =
  the_project :: project_data
  the_signer :: signer
  publisherPubkey :: string
  relayList :: "string list"
  serverList :: "string list"
  localFiles :: "file_entry list"
  remoteFiles :: "file_entry list"

definition prepare :: "world \<Rightarrow> options \<Rightarrow> string \<Rightarrow> plan prog" where
  "prepare w opts fileOrFolder =
     bind (loadProject w opts) (\<lambda>ctx.
     bind (requireProject ctx) (\<lambda>pd.
     bind (chooseSigner w opts ctx pd) (\<lambda>(sg, pk).
     bind (copyFallback w opts pd fileOrFolder) (\<lambda>_.
     bind (scanLocal w fileOrFolder) (\<lambda>found.
     bind (fetchRemote w
             (if truthy_str (relays opts) then split_comma (the (relays opts))
              else cfg_relays pd) pk) (\<lambda>remote.
       ret \<lparr>the_project = pd, the_signer = sg, publisherPubkey = pk,
            relayList = (if truthy_str (relays opts) then split_comma (the (relays opts))
                         else cfg_relays pd),
            serverList = (if truthy_str (servers opts) then split_comma (the (servers opts))
                          else cfg_servers pd),
            localFiles = found, remoteFiles = remote\<rparr>))))))"

text \<open>
  From the check for files that may exist already to the list of files to transfer; the
  result also carries \<^verbatim>\<open>toDelete\<close>.
\<close>

definition reconcile ::
  "world \<Rightarrow> options \<Rightarrow> plan \<Rightarrow> (file_entry list \<times> file_entry list) prog" where
  "reconcile w opts p =
     bind (probe w opts (localFiles p) (remoteFiles p) (serverList p)) (\<lambda>fileComparisonMessage.
     bind (if fileComparisonMessage \<noteq> [] then emit (Say fileComparisonMessage) else ret ())
       (\<lambda>_.
     case compareFiles (localFiles p) (remoteFiles p) of (toTransfer, existing, toDelete) \<Rightarrow>
     bind (decide w opts (remoteFiles p) fileComparisonMessage toTransfer existing toDelete)
       (\<lambda>toTransfer'. ret (toTransfer', toDelete))))"

text \<open>The command up to the end of the uploads.\<close>

definition transfer :: "world \<Rightarrow> options \<Rightarrow> string \<Rightarrow> (plan \<times> file_entry list) prog" where
  "transfer w opts fileOrFolder =
     bind (prepare w opts fileOrFolder) (\<lambda>p.
     bind (reconcile w opts p) (\<lambda>(toTransfer, toDelete).
     bind (uploadFiles w opts fileOrFolder (serverList p) (relayList p) toTransfer) (\<lambda>_.
       ret (p, toDelete))))"

text \<open>The rest of the command: purge, lists and profile, and the gateway line.\<close>

definition conclude :: "world \<Rightarrow> options \<Rightarrow> plan \<Rightarrow> file_entry list \<Rightarrow> unit prog" where
  "conclude w opts p toDelete =
     bind (purgeFiles w opts (the_signer p) (relayList p) (serverList p) toDelete) (\<lambda>_.
     bind (publishExtras w opts (the_project p) (the_signer p) (relayList p) (serverList p))
       (\<lambda>_.
       emit (Say (''The website is now available on any nsite gateway, e.g.: '' @
                  nsiteUrl w (publisherPubkey p)))))"

text \<open>
  The whole command: the outer \<^verbatim>\<open>catch\<close> reports what was thrown and exits with 1.
\<close>

definition start_state :: run_state where
  "start_state = \<lparr>trail = [], collected = [], ticks = 0\<rparr>"

definition uploadCommand :: "world \<Rightarrow> options \<Rightarrow> string \<Rightarrow> ending \<times> run_state" where
  "uploadCommand w opts fileOrFolder =
     (case bind (transfer w opts fileOrFolder) (\<lambda>(p, toDelete). conclude w opts p toDelete)
             start_state of
        (Val u, s) \<Rightarrow> (Returned, s)
      | (Throw e, s) \<Rightarrow> (Exited 1, s\<lparr>trail := trail s @ [Say (''Failed to upload: '' @ e)]\<rparr>)
      | (Stop h, s) \<Rightarrow> (h, s))"

text \<open>The exit code of the process; a run that hangs has none.\<close>

definition exit_code :: "ending \<Rightarrow> nat option" where
  "exit_code h = (case h of Exited n \<Rightarrow> Some n | Returned \<Rightarrow> Some 0 | Hung \<Rightarrow> None)"

section \<open>Auxiliary notions for the statements\<close>

text \<open>The connection \<^verbatim>\<open>relays.map\<close> sets up for one relay.\<close>

definition mk_conn :: "(string \<Rightarrow> string option) \<Rightarrow> string \<Rightarrow> conn" where
  "mk_conn ctor r = \<lparr>url = r, live = (ctor r = None), opened = False, settled = None\<rparr>"

text \<open>\<^verbatim>\<open>successCount\<close> is positive exactly when some promise was resolved with true.\<close>

definition counted :: "pub_state \<Rightarrow> bool" where
  "counted st = ((0 < successCount st) = (\<exists>j<length (conns st). settled (conns st ! j) = Some True))"

text \<open>The URLs of the constructor calls in a list of socket calls.\<close>

fun constructed :: "wire_op list \<Rightarrow> string list" where
  "constructed [] = []"
| "constructed (Construct u # ops) = u # constructed ops"
| "constructed (Send i e # ops) = constructed ops"
| "constructed (CloseSocket i # ops) = constructed ops"

text \<open>
  The platform's part: a socket that was constructed reports an error, closes, or opens
  and then has its timer fire. Such a socket settles its promise.
\<close>

fun ends :: "bool \<Rightarrow> ws_event list \<Rightarrow> bool" where
  "ends is_open [] = False"
| "ends is_open (Open # es) = ends True es"
| "ends is_open (Message frame # es) = ends is_open es"
| "ends is_open (Timeout # es) = (is_open \<or> ends is_open es)"
| "ends is_open (Error e # es) = True"
| "ends is_open (Close # es) = True"

text \<open>
  The handlers' part: a socket that is open receives a frame the message handler acts on,
  an \<^verbatim>\<open>OK\<close> frame that accepts or rejects.
\<close>

fun answered :: "bool \<Rightarrow> ws_event list \<Rightarrow> bool" where
  "answered is_open [] = False"
| "answered is_open (Open # es) = answered True es"
| "answered is_open (Message frame # es) =
     (is_open \<and> verdict frame \<noteq> None \<or> answered is_open es)"
| "answered is_open (Timeout # es) = answered is_open es"
| "answered is_open (Error e # es) = answered is_open es"
| "answered is_open (Close # es) = answered is_open es"

text \<open>
  The entries of the collector a call is expected to add. One event on the socket of
  \<open>relay\<close> adds an entry when it is an error event, the timer firing on an opened socket,
  or a rejecting frame on an opened socket; \<^verbatim>\<open>onopen\<close> and \<^verbatim>\<open>onclose\<close> add none.
\<close>

fun event_entries :: "string \<Rightarrow> bool \<Rightarrow> ws_event \<Rightarrow> entry list" where
  "event_entries relay is_open Open = []"
| "event_entries relay is_open (Message frame) =
     (if is_open
      then (case verdict frame of
              Some (RejectedWith m) \<Rightarrow> [(RelayRejection, relay, m)]
            | _ \<Rightarrow> [])
      else [])"
| "event_entries relay is_open Timeout =
     (if is_open then [(ConnectionError, relay, JStr ''Timeout waiting for response'')] else [])"
| "event_entries relay is_open (Error e) =
     [(ConnectionError, relay, JStr (''WebSocket error: '' @ e))]"
| "event_entries relay is_open Close = []"

text \<open>
  The entries of a whole trace, in the order of the events; \<open>before\<close> is what was
  delivered earlier, which tells whether the socket of an event has been opened.
\<close>

fun trace_entries ::
  "(string \<Rightarrow> string option) \<Rightarrow> string list \<Rightarrow> (nat \<times> ws_event) list \<Rightarrow>
   (nat \<times> ws_event) list \<Rightarrow> entry list" where
  "trace_entries ctor urls before [] = []"
| "trace_entries ctor urls before (e # es) =
     (if fst e < length urls \<and> ctor (urls ! fst e) = None
      then event_entries (urls ! fst e) (Open \<in> set (events_of (fst e) before)) (snd e)
      else [])
     @ trace_entries ctor urls (before @ [e]) es"

text \<open>The entries of the constructor calls that throw, in the order of the relays.\<close>

definition failure_entries :: "(string \<Rightarrow> string option) \<Rightarrow> string list \<Rightarrow> entry list" where
  "failure_entries ctor urls =
     concat (map (\<lambda>u. case ctor u of
                         None \<Rightarrow> []
                       | Some e \<Rightarrow> [(ConnectionError, u, JStr (''Connection failed: '' @ e))])
                 urls)"

definition relay_entries ::
  "(string \<Rightarrow> string option) \<Rightarrow> string list \<Rightarrow> (nat \<times> ws_event) list \<Rightarrow> entry list" where
  "relay_entries ctor urls trace =
     failure_entries ctor urls @ trace_entries ctor urls [] trace"

text \<open>
  The text kept for an \<^verbatim>\<open>OK ... false\<close> frame whose fourth element is the text \<open>msg\<close>.
\<close>

definition noted_reason :: "string \<Rightarrow> string" where
  "noted_reason msg =
     (let m = (if msg = [] then ''Unknown relay error'' else msg)
      in if sublist ''rate-limit'' m \<or> sublist ''noting too much'' m
         then ''Rate limited: '' @ m else m)"

section \<open>Notions for the statements about the command\<close>

text \<open>
  \<open>each_after G before l\<close>: every action \<open>x\<close> of \<open>l\<close> satisfies \<open>G b x\<close>, where \<open>b\<close> is
  everything done before \<open>x\<close> (the actions \<open>before\<close>, then the ones of \<open>l\<close> up to \<open>x\<close>).
\<close>

fun each_after :: "(action list \<Rightarrow> action \<Rightarrow> bool) \<Rightarrow> action list \<Rightarrow> action list \<Rightarrow> bool" where
  "each_after G before [] = True"
| "each_after G before (x # xs) = (G before x \<and> each_after G (before @ [x]) xs)"

text \<open>
  A purge entry is skipped when it lacks its source record or its content hash.
\<close>

definition lacks :: "file_entry \<Rightarrow> bool" where
  "lacks f = (event f = None \<or> \<not> truthy_str (sha256 f))"

text \<open>
  What one pass of the loop over the servers adds to the trail, when the clock has been read
  \<open>k\<close> times before: the signing of the authorization and, unless the signer or
  \<^verbatim>\<open>btoa\<close> throws, the DELETE request.
\<close>

definition authSegment :: "world \<Rightarrow> signer \<Rightarrow> file_entry \<Rightarrow> string \<Rightarrow> string \<Rightarrow> nat \<Rightarrow> action list" where
  "authSegment w sg f h server k =
     (let t = deleteAuthTemplate (now w k div 1000) (now w (Suc k) div 1000) h (path f)
      in Sign t #
         (case sg t of
            Inl e \<Rightarrow> []
          | Inr d \<Rightarrow>
              (case btoa_json w d of
                 None \<Rightarrow> []
               | Some b \<Rightarrow> [Delete (serverUrl server @ h) (''Nostr '' @ b)])))"

fun authSegments ::
  "world \<Rightarrow> signer \<Rightarrow> file_entry \<Rightarrow> string \<Rightarrow> string list \<Rightarrow> nat \<Rightarrow> action list" where
  "authSegments w sg f h [] k = []"
| "authSegments w sg f h (server # others) k =
     authSegment w sg f h server k @ authSegments w sg f h others (k + 2)"

text \<open>The deletion record template of an entry, when the clock has been read \<open>k\<close> times.\<close>

definition deletionOf :: "world \<Rightarrow> file_entry \<Rightarrow> nat \<Rightarrow> event_template" where
  "deletionOf w f k =
     deletionEventTemplate (now w k div 1000) (now w (Suc k) div 1000)
       (event_id (the (event f))) (path f)"

text \<open>
  \<open>authorizes\<close>: the request \<^verbatim>\<open>DELETE u\<close> with \<^verbatim>\<open>Authorization: a\<close> is for the hash of
  entry \<open>f\<close> on \<open>server\<close>, and the last thing done before it was to sign a kind 24242
  template with the tags \<^verbatim>\<open>t delete\<close>, \<^verbatim>\<open>x hash\<close> and an expiration 120 seconds after a
  reading of the clock (the one that follows the reading for \<^verbatim>\<open>created_at\<close>); \<open>a\<close> is
  \<^verbatim>\<open>Nostr\<close> followed by the base64 of the JSON of the signed record.
\<close>

definition authorizes ::
  "world \<Rightarrow> signer \<Rightarrow> file_entry \<Rightarrow> string \<Rightarrow> action list \<Rightarrow> string \<Rightarrow> string \<Rightarrow> bool" where
  "authorizes w sg f server before u a =
     (\<exists>h k c d b.
        sha256 f = Some h \<and> u = serverUrl server @ h \<and> before \<noteq> [] \<and>
        last before =
          Sign \<lparr>kind = 24242, created_at = now w k div 1000, content = c,
                tags = [[''t'', ''delete''], [''x'', h],
                        [''expiration'', dec (now w (Suc k) div 1000 + 120)]]\<rparr> \<and>
        sg \<lparr>kind = 24242, created_at = now w k div 1000, content = c,
            tags = [[''t'', ''delete''], [''x'', h],
                    [''expiration'', dec (now w (Suc k) div 1000 + 120)]]\<rparr> = Inr d \<and>
        btoa_json w d = Some b \<and> a = ''Nostr '' @ b)"

definition authorized ::
  "world \<Rightarrow> signer \<Rightarrow> string list \<Rightarrow> file_entry list \<Rightarrow> action list \<Rightarrow> action \<Rightarrow> bool" where
  "authorized w sg sl fs before x =
     (\<forall>u a. x = Delete u a \<longrightarrow>
        (\<exists>f\<in>set fs. \<exists>server\<in>set sl. authorizes w sg f server before u a))"

text \<open>
  \<open>revoked\<close>: \<open>u\<close> is the hash of entry \<open>f\<close> on \<open>server\<close>, and a kind 5 record that
  references the announcement of \<open>f\<close> was signed and handed to \<^verbatim>\<open>publishToRelays\<close>, which
  answered, before.
\<close>

definition revoked ::
  "world \<Rightarrow> signer \<Rightarrow> string list \<Rightarrow> file_entry \<Rightarrow> string \<Rightarrow> action list \<Rightarrow> string \<Rightarrow> bool" where
  "revoked w sg rl f server before u =
     (\<exists>e h k c d.
        event f = Some e \<and> sha256 f = Some h \<and> u = serverUrl server @ h \<and>
        sg \<lparr>kind = 5, created_at = now w k div 1000, content = c,
            tags = [[''e'', event_id e],
                    [''expiration'', dec (now w (Suc k) div 1000 + 120)]]\<rparr> = Inr d \<and>
        Publish d rl \<in> set before \<and>
        fst (publishToRelays (webSocket w) d rl None (traffic w d)) \<noteq> None)"

definition causal ::
  "world \<Rightarrow> signer \<Rightarrow> string list \<Rightarrow> string list \<Rightarrow> file_entry list \<Rightarrow> action list \<Rightarrow> action \<Rightarrow>
   bool" where
  "causal w sg rl sl fs before x =
     (\<forall>u a. x = Delete u a \<longrightarrow>
        (\<exists>f\<in>set fs. \<exists>server\<in>set sl. revoked w sg rl f server before u))"

text \<open>
  An action is \<open>quiet\<close> when it loads, uploads, signs, publishes and deletes nothing:
  console output, the copy of the fallback page, the scan, the fetch of the remote
  records, HEAD requests and prompts.
\<close>

fun quiet :: "action \<Rightarrow> bool" where
  "quiet (Load f) = False"
| "quiet (Upload fs ss rs n) = False"
| "quiet (Sign t) = False"
| "quiet (Publish d rs) = False"
| "quiet (Delete u a) = False"
| "quiet x = True"

text \<open>The files whose content was loaded, in order.\<close>

fun loads :: "action list \<Rightarrow> file_entry list" where
  "loads [] = []"
| "loads (Load f # xs) = f # loads xs"
| "loads (x # xs) = loads xs"

fun unloaded :: "action \<Rightarrow> bool" where
  "unloaded (Load f) = False"
| "unloaded x = True"

text \<open>
  \<open>adds P E T m\<close>: whatever \<open>m\<close> does, it only appends to the trail, the appended actions
  satisfy \<open>P\<close>, it stops only in a way \<open>E\<close> allows, and it throws only if \<open>T\<close>.
\<close>

definition adds :: "(action \<Rightarrow> bool) \<Rightarrow> (ending \<Rightarrow> bool) \<Rightarrow> bool \<Rightarrow> 'a prog \<Rightarrow> bool" where
  "adds P E T m =
     (\<forall>s r s'. m s = (r, s') \<longrightarrow>
        (\<exists>l. trail s' = trail s @ l \<and> list_all P l) \<and>
        (case r of Val x \<Rightarrow> True | Throw e \<Rightarrow> T | Stop h \<Rightarrow> E h))"

text \<open>The condition of the block that stops the command or asks for confirmation.\<close>

definition nothing_new ::
  "options \<Rightarrow> file_entry list \<Rightarrow> string \<Rightarrow> file_entry list \<Rightarrow> file_entry list \<Rightarrow> bool" where
  "nothing_new opts rs msg toTransfer toDelete =
     ((toTransfer = [] \<and> (\<not> purge opts \<or> toDelete = [])) \<or>
      (rs = [] \<and> msg \<noteq> [] \<and> \<not> force opts))"

text \<open>The outer \<^verbatim>\<open>try\<close> of the command, applied to the result of its body.\<close>

definition finish :: "unit res \<times> run_state \<Rightarrow> ending \<times> run_state" where
  "finish x =
     (case x of
        (Val u, s) \<Rightarrow> (Returned, s)
      | (Throw e, s) \<Rightarrow> (Exited 1, s\<lparr>trail := trail s @ [Say (''Failed to upload: '' @ e)]\<rparr>)
      | (Stop h, s) \<Rightarrow> (h, s))"

section \<open>Sample inputs\<close>

definition sample_event :: nostr_event where
  "sample_event =
     \<lparr>kind = 5, created_at = 1, content = [], tags = [], pubkey = ''pk'', event_id = ''aa'',
      sig = ''sg''\<rparr>"

definition ok_frame :: "string \<Rightarrow> bool \<Rightarrow> string \<Rightarrow> json" where
  "ok_frame i b msg = JArr [JStr ''OK'', JStr i, JBool b, JStr msg]"

definition no_throw :: "string \<Rightarrow> string option" where
  "no_throw u = None"

definition sample_signer :: signer where
  "sample_signer t =
     Inr \<lparr>kind = kind t, created_at = created_at t, content = content t, tags = tags t,
          pubkey = ''pk'', event_id = ''id of '' @ content t, sig = ''sg''\<rparr>"

definition announcement :: "string \<Rightarrow> string \<Rightarrow> nostr_event" where
  "announcement p h =
     \<lparr>kind = 34128, created_at = 1, content = [], tags = [[''d'', p], [''x'', h]],
      pubkey = ''pk'', event_id = ''id of '' @ p, sig = ''sg''\<rparr>"

definition local_file :: "string \<Rightarrow> string \<Rightarrow> file_entry" where
  "local_file p h =
     \<lparr>path = p, size_bytes = 0, sha256 = Some h, contentType = None, bytes = None,
      event = None\<rparr>"

definition remote_file :: "string \<Rightarrow> string \<Rightarrow> file_entry" where
  "remote_file p h =
     \<lparr>path = p, size_bytes = 0, sha256 = Some h, contentType = None, bytes = None,
      event = Some (announcement p h)\<rparr>"

definition sample_project :: project_data where
  "sample_project =
     \<lparr>cfg_relays = [], cfg_servers = [''https://s''], bunkerPubkey = None, cfg_fallback = None,
      cfg_publishRelayList = False, cfg_publishServerList = False, profile = None\<rparr>"

definition failed_upload :: "file_entry \<Rightarrow> upload_result" where
  "failed_upload f =
     \<lparr>uploaded = f, success = False, eventPublished = False, eventId = None,
      serverResults = [(''https://s'', False)], error = Some ''Failed to upload to any server''\<rparr>"

definition sample_world :: world where
  "sample_world =
     \<lparr>isInteractive = False,
      readProjectFile = Inr (Some sample_project),
      setupProject = Inr \<lparr>projectData = Some sample_project, privateKey = None\<rparr>,
      newPrivateKeySigner = (\<lambda>k. Inr (sample_signer, ''pk'')),
      importFromNbunk = (\<lambda>k. Inl ''no bunker''),
      createNip46ClientFromUrl = (\<lambda>k. Inl ''no bunker''),
      getNbunk = (\<lambda>k. None),
      inputPrompt = Inl ''no input'',
      confirmPrompt = Inr True,
      copy = (\<lambda>a b. None),
      getLocalFiles = (\<lambda>d. Inr ([local_file ''/a'' ''ha''], [])),
      listRemoteFiles = (\<lambda>rs pk. Inr []),
      fetchHEAD = (\<lambda>u. Inr False),
      loadFileData = (\<lambda>d f. Inr f),
      processUploads = (\<lambda>fs d ss rs n. Inr (map failed_upload fs)),
      errorText = (\<lambda>e. e),
      fetchDELETE = (\<lambda>u a. Inr True),
      btoa_json = (\<lambda>d. Some (event_id d)),
      npubEncode = (\<lambda>k. None),
      now = (\<lambda>k. 1000 * k + 5000),
      webSocket = (\<lambda>u. None),
      traffic = (\<lambda>d. [])\<rparr>"

definition sample_options :: options where
  "sample_options =
     \<lparr>force = False, verbose = False, purge = False, servers = None, relays = None,
      privatekey = Some ''nsec1'', bunker = None, nbunksec = None, concurrency = 4,
      fallback = None, publishServerList = False, publishRelayList = False,
      publishProfile = False, nonInteractive = True\<rparr>"

definition interactive_options :: options where
  "interactive_options = sample_options\<lparr>nonInteractive := False\<rparr>"

definition forced_options :: options where
  "forced_options = sample_options\<lparr>force := True\<rparr>"

definition keyless_options :: options where
  "keyless_options = sample_options\<lparr>privatekey := None\<rparr>"

definition ambiguous_world :: world where
  "ambiguous_world = sample_world\<lparr>fetchHEAD := (\<lambda>u. Inr True)\<rparr>"

definition published_world :: world where
  "published_world =
     sample_world\<lparr>listRemoteFiles := (\<lambda>rs pk. Inr [remote_file ''/a'' ''ha''])\<rparr>"

definition unreadable_world :: world where
  "unreadable_world = sample_world\<lparr>loadFileData := (\<lambda>d f. Inl ''gone'')\<rparr>"

definition unconfigured_world :: world where
  "unconfigured_world =
     sample_world\<lparr>setupProject := Inr \<lparr>projectData = None, privateKey = None\<rparr>\<rparr>"

definition defaulted_world :: world where
  "defaulted_world = sample_world\<lparr>readProjectFile := Inr None\<rparr>"

definition sample_plan :: plan where
  "sample_plan =
     \<lparr>the_project = sample_project, the_signer = sample_signer, publisherPubkey = ''pk'',
      relayList = [], serverList = [''https://s''],
      localFiles = [local_file ''/a'' ''ha''], remoteFiles = []\<rparr>"

section \<open>Properties of the socket handlers\<close>

lemma resolve_fields [simp]:
  "url (resolve b c) = url c" "live (resolve b c) = live c" "opened (resolve b c) = opened c"
  by (simp_all add: resolve_def)

lemma settled_resolve:
  "settled (resolve b c) = (case settled c of None \<Rightarrow> Some b | Some a \<Rightarrow> Some a)"
  by (simp add: resolve_def split: option.splits)

lemma js_includes_None: "js_includes v a = None \<Longrightarrow> js_includes v b = None"
  by (cases v) simp_all

lemma onmessage_verdict:
  "onmessage frame c =
     (case verdict frame of
        None \<Rightarrow> (c, None, False)
      | Some Accepted \<Rightarrow> (resolve True c, None, True)
      | Some (RejectedWith m) \<Rightarrow> (resolve False c, Some (Rejected m), True)
      | Some v \<Rightarrow> (c, None, False))"
  by (auto simp: onmessage_def verdict_def reason_def split: option.splits bool.splits
        dest: js_includes_None [where b = "''rate-limit''"] js_includes_None [where b = "''noting too much''"])

lemma verdict_cases:
  "verdict frame = None \<or> verdict frame = Some Accepted \<or> (\<exists>m. verdict frame = Some (RejectedWith m))"
  by (auto simp: verdict_def split: option.splits)

lemma handle_fields [simp]:
  "url (fst (handle ev c)) = url c" "live (fst (handle ev c)) = live c"
  "opened (fst (handle ev c)) = (opened c \<or> ev = Open)"
  using verdict_cases [of "case ev of Message f \<Rightarrow> f | _ \<Rightarrow> None"]
  by (auto simp: handle_def onmessage_verdict split: ws_event.splits option.splits relay_outcome.splits)

lemma handle_settled_stable:
  "settled c = Some b \<Longrightarrow> settled (fst (handle ev c)) = Some b"
  using verdict_cases [of "case ev of Message f \<Rightarrow> f | _ \<Rightarrow> None"]
  by (auto simp: handle_def onmessage_verdict settled_resolve split: ws_event.splits option.splits relay_outcome.splits)

lemma handle_pending:
  assumes "settled c = None"
  shows "(case outcome (opened c) [ev] of
            None \<Rightarrow> settled (fst (handle ev c)) = None \<and> fst (snd (handle ev c)) = None
          | Some v \<Rightarrow> settled (fst (handle ev c)) = Some (v = Accepted) \<and>
                     fst (snd (handle ev c)) =
                       (case v of RejectedWith m \<Rightarrow> Some (Rejected m)
                        | TimedOut \<Rightarrow> Some (Failed ''Timeout waiting for response'')
                        | TransportError d \<Rightarrow> Some (Failed d)
                        | _ \<Rightarrow> None))"
  using assms verdict_cases [of "case ev of Message f \<Rightarrow> f | _ \<Rightarrow> None"]
  by (cases ev) (auto simp: handle_def onmessage_verdict settled_resolve split: option.splits relay_outcome.splits)

lemma outcome_Cons:
  "outcome a (ev # es) =
     (case outcome a [ev] of Some v \<Rightarrow> Some v | None \<Rightarrow> outcome (a \<or> ev = Open) es)"
  by (cases ev) (auto split: option.splits)

lemma record_note_fields [simp]:
  "conns (record_note r n st) = conns st" "successCount (record_note r n st) = successCount st"
  "wire (record_note r n st) = wire st"
  by (simp_all add: record_note_def split: option.splits relay_note.splits)

lemma length_conns_step [simp]: "length (conns (step evt e st)) = length (conns st)"
  by (simp add: step_def Let_def split: prod.splits)

lemma length_conns_run [simp]: "length (conns (run evt st tr)) = length (conns st)"
  by (induction tr arbitrary: st) simp_all

lemma conns_step:
  "j < length (conns st) \<Longrightarrow>
   conns (step evt (i, ev) st) ! j =
     (if j = i \<and> live (conns st ! i) then fst (handle ev (conns st ! i)) else conns st ! j)"
  by (simp add: step_def Let_def nth_list_update split: prod.splits)

lemma run_fields:
  "j < length (conns st) \<Longrightarrow>
   url (conns (run evt st tr) ! j) = url (conns st ! j) \<and>
   live (conns (run evt st tr) ! j) = live (conns st ! j)"
proof (induction tr arbitrary: st)
  case Nil
  then show ?case by simp
next
  case (Cons e tr)
  obtain i ev where e: "e = (i, ev)" by (cases e)
  from Cons.prems have "j < length (conns (step evt e st))" by simp
  from Cons.IH [OF this] Cons.prems show ?case
    by (simp add: e conns_step)
qed

lemma run_settled_stable:
  "j < length (conns st) \<Longrightarrow> settled (conns st ! j) = Some b \<Longrightarrow>
   settled (conns (run evt st tr) ! j) = Some b"
proof (induction tr arbitrary: st)
  case Nil
  then show ?case by simp
next
  case (Cons e tr)
  obtain i ev where e: "e = (i, ev)" by (cases e)
  have "settled (conns (step evt e st) ! j) = Some b"
    using Cons.prems by (auto simp: e conns_step handle_settled_stable)
  moreover have "j < length (conns (step evt e st))" using Cons.prems by simp
  ultimately show ?case using Cons.IH by simp
qed

lemma run_not_live:
  "j < length (conns st) \<Longrightarrow> \<not> live (conns st ! j) \<Longrightarrow>
   conns (run evt st tr) ! j = conns st ! j"
proof (induction tr arbitrary: st)
  case Nil
  then show ?case by simp
next
  case (Cons e tr)
  obtain i ev where e: "e = (i, ev)" by (cases e)
  have "conns (step evt e st) ! j = conns st ! j"
    using Cons.prems by (auto simp: e conns_step)
  moreover have "j < length (conns (step evt e st))" using Cons.prems by simp
  ultimately show ?case using Cons.IH [of "step evt e st"] Cons.prems by simp
qed

lemma events_of_Cons:
  "events_of j ((i, ev) # tr) = (if i = j then ev # events_of j tr else events_of j tr)"
  by (simp add: events_of_def)

lemma run_settled:
  "j < length (conns st) \<Longrightarrow> live (conns st ! j) \<Longrightarrow> settled (conns st ! j) = None \<Longrightarrow>
   settled (conns (run evt st tr) ! j) =
     map_option (\<lambda>v. v = Accepted) (outcome (opened (conns st ! j)) (events_of j tr))"
proof (induction tr arbitrary: st)
  case Nil
  then show ?case by (simp add: events_of_def)
next
  case (Cons e tr)
  obtain i ev where e: "e = (i, ev)" by (cases e)
  let ?st = "step evt e st"
  have len: "j < length (conns ?st)" using Cons.prems by simp
  show ?case
  proof (cases "i = j")
    case False
    then have same: "conns ?st ! j = conns st ! j"
      using Cons.prems by (simp add: e conns_step)
    from Cons.IH [OF len] same Cons.prems False show ?thesis
      by (simp add: e events_of_Cons)
  next
    case True
    let ?c = "conns st ! j"
    have c': "conns ?st ! j = fst (handle ev ?c)"
      using Cons.prems True by (simp add: e conns_step)
    have oc: "outcome (opened ?c) (events_of j (e # tr)) =
        (case outcome (opened ?c) [ev] of Some v \<Rightarrow> Some v
         | None \<Rightarrow> outcome (opened ?c \<or> ev = Open) (events_of j tr))"
      using True outcome_Cons [of "opened ?c" ev "events_of j tr"]
      by (simp add: e events_of_Cons)
    show ?thesis
    proof (cases "outcome (opened ?c) [ev]")
      case None
      with handle_pending [OF Cons.prems(3), of ev]
      have "settled (conns ?st ! j) = None" by (simp add: c')
      moreover have "live (conns ?st ! j)" using Cons.prems by (simp add: c')
      ultimately have "settled (conns (run evt ?st tr) ! j) =
          map_option (\<lambda>v. v = Accepted) (outcome (opened (conns ?st ! j)) (events_of j tr))"
        using Cons.IH [OF len] by simp
      then show ?thesis using None by (simp add: oc c')
    next
      case (Some v)
      with handle_pending [OF Cons.prems(3), of ev]
      have "settled (conns ?st ! j) = Some (v = Accepted)" by (simp add: c')
      from run_settled_stable [OF len this, of evt tr] Some show ?thesis
        by (simp add: oc)
    qed
  qed
qed


lemma conns_connects:
  "conns (foldl (connect ctor) st rs) = conns st @ map (mk_conn ctor) rs"
  by (induction rs arbitrary: st) (simp_all add: connect_def mk_conn_def split: option.splits)

lemma conns_start: "conns (start ctor urls mc) = map (mk_conn ctor) urls"
  by (simp add: start_def conns_connects)

lemma successCount_connects:
  "successCount (foldl (connect ctor) st rs) = successCount st"
  by (induction rs arbitrary: st) (simp_all add: connect_def split: option.splits)

lemma successCount_start [simp]: "successCount (start ctor urls mc) = 0"
  by (simp add: start_def successCount_connects)


lemma counted_step: "counted st \<Longrightarrow> counted (step evt e st)"
proof -
  assume inv: "counted st"
  obtain i ev where e: "e = (i, ev)" by (cases e)
  show ?thesis
  proof (cases "i < length (conns st) \<and> live (conns st ! i)")
    case False
    then show ?thesis using inv by (auto simp: step_def e)
  next
    case True
    let ?c = "conns st ! i" and ?c' = "fst (handle ev (conns st ! i))"
    have cs: "conns (step evt e st) = (conns st)[i := ?c']"
      and sc: "successCount (step evt e st) =
        (if settled ?c = None \<and> settled ?c' = Some True then successCount st + 1 else successCount st)"
      using True by (simp_all add: step_def e Let_def split: prod.splits)
    show ?thesis
    proof (cases "settled ?c = None \<and> settled ?c' = Some True")
      case yes: True
      then have "\<exists>j<length (conns st). settled ((conns st)[i := ?c'] ! j) = Some True"
        using True by (intro exI [of _ i]) simp
      then show ?thesis using yes by (simp add: counted_def cs sc)
    next
      case no: False
      have "settled ?c' = Some True \<longleftrightarrow> settled ?c = Some True"
        using no handle_settled_stable [of ?c _ ev] by (cases "settled ?c") auto
      then have "(\<exists>j<length (conns st). settled ((conns st)[i := ?c'] ! j) = Some True) =
          (\<exists>j<length (conns st). settled (conns st ! j) = Some True)"
        using True by (metis nth_list_update_eq nth_list_update_neq)
      then show ?thesis using no inv by (auto simp: counted_def cs sc)
    qed
  qed
qed

lemma counted_run: "counted st \<Longrightarrow> counted (run evt st tr)"
  by (induction tr arbitrary: st) (simp_all add: counted_step)

lemma counted_start: "counted (start ctor urls mc)"
  by (simp add: counted_def conns_start mk_conn_def)

lemma start_nth:
  "j < length urls \<Longrightarrow> conns (start ctor urls mc) ! j = mk_conn ctor (urls ! j)"
  by (simp add: conns_start)

lemma settled_final:
  assumes "j < length urls"
  shows "settled (conns (run evt (start ctor urls mc) tr) ! j) =
     (if ctor (urls ! j) = None
      then map_option (\<lambda>v. v = Accepted) (outcome False (events_of j tr)) else None)"
proof (cases "ctor (urls ! j) = None")
  case True
  then show ?thesis
    using assms run_settled [of j "start ctor urls mc" evt tr]
    by (simp add: conns_start mk_conn_def)
next
  case False
  then show ?thesis
    using assms run_not_live [of j "start ctor urls mc" evt tr]
    by (auto simp: conns_start mk_conn_def)
qed

lemma finished_final:
  assumes "j < length urls"
  shows "finished (conns (run evt (start ctor urls mc) tr) ! j) =
     (relay_result ctor urls tr j \<noteq> None)"
  using assms settled_final [OF assms, of evt ctor mc tr]
    run_fields [of j "start ctor urls mc" evt tr]
  by (auto simp: finished_def relay_result_def conns_start mk_conn_def split: option.splits)

lemma accepted_final:
  assumes "j < length urls"
  shows "(settled (conns (run evt (start ctor urls mc) tr) ! j) = Some True) =
     (relay_result ctor urls tr j = Some Accepted)"
  using settled_final [OF assms, of evt ctor mc tr]
  by (auto simp: relay_result_def split: option.splits)

lemma publish_value:
  "fst (publishToRelays ctor evt urls mc tr) =
     (if \<forall>j<length urls. relay_result ctor urls tr j \<noteq> None
      then Some (\<exists>j<length urls. relay_result ctor urls tr j = Some Accepted)
      else None)"
proof -
  let ?st = "run evt (start ctor urls mc) tr"
  have len: "length (conns ?st) = length urls" by (simp add: conns_start)
  have fin: "list_all finished (conns ?st) = (\<forall>j<length urls. relay_result ctor urls tr j \<noteq> None)"
    using finished_final [of _ urls evt ctor mc tr] len
    by (simp add: list_all_length)
  have "counted ?st" by (rule counted_run [OF counted_start])
  then have "(0 < successCount ?st) = (\<exists>j<length urls. relay_result ctor urls tr j = Some Accepted)"
    using accepted_final [of _ urls evt ctor mc tr] len
    by (auto simp: counted_def)
  with fin show ?thesis by (simp add: publishToRelays_def Let_def)
qed


lemma constructed_append: "constructed (xs @ ys) = constructed xs @ constructed ys"
  by (induction xs rule: constructed.induct) simp_all

lemma constructed_step: "constructed (wire (step evt e st)) = constructed (wire st)"
  by (simp add: step_def Let_def constructed_append split: prod.splits)

lemma constructed_run: "constructed (wire (run evt st tr)) = constructed (wire st)"
  by (induction tr arbitrary: st) (simp_all add: constructed_step)

lemma constructed_connects:
  "constructed (wire (foldl (connect ctor) st rs)) = constructed (wire st) @ rs"
  by (induction rs arbitrary: st)
     (simp_all add: connect_def constructed_append split: option.splits)

lemma constructed_publish:
  "constructed (wire (snd (publishToRelays ctor evt urls mc tr))) = urls"
  by (simp add: publishToRelays_def Let_def constructed_run start_def constructed_connects)

lemma collector_note:
  "messageCollector st = Some m \<Longrightarrow>
   messageCollector (record_note r n st) =
     Some (m @ (case n of None \<Rightarrow> []
                | Some (Rejected x) \<Rightarrow> [(RelayRejection, r, x)]
                | Some (Failed s) \<Rightarrow> [(ConnectionError, r, JStr s)]))"
  by (simp add: record_note_def addRelayRejection_def addConnectionError_def
      split: option.splits relay_note.splits)

lemma collector_step_live:
  "i < length (conns st) \<Longrightarrow> live (conns st ! i) \<Longrightarrow>
   messageCollector (step evt (i, ev) st) =
     messageCollector (record_note (url (conns st ! i)) (fst (snd (handle ev (conns st ! i)))) st)"
  by (simp add: step_def Let_def split: prod.splits)

lemma collector_step:
  "messageCollector st = Some m \<Longrightarrow> \<exists>m'. messageCollector (step evt e st) = Some (m @ m')"
proof -
  assume m: "messageCollector st = Some m"
  obtain i ev where e: "e = (i, ev)" by (cases e)
  show ?thesis
  proof (cases "i < length (conns st) \<and> live (conns st ! i)")
    case True
    then show ?thesis using m by (simp add: e collector_step_live collector_note)
  next
    case False
    then show ?thesis using m by (auto simp: e step_def)
  qed
qed

lemma collector_run:
  "messageCollector st = Some m \<Longrightarrow> \<exists>m'. messageCollector (run evt st tr) = Some (m @ m')"
proof (induction tr arbitrary: st m)
  case Nil
  then show ?case by simp
next
  case (Cons e tr)
  from collector_step [OF Cons.prems, of evt e]
  obtain m1 where "messageCollector (step evt e st) = Some (m @ m1)" by blast
  from Cons.IH [OF this] show ?case by auto
qed

lemma collector_connect:
  "messageCollector st = Some m \<Longrightarrow> \<exists>m1. messageCollector (connect ctor st r) = Some (m @ m1)"
  by (simp add: connect_def collector_note split: option.splits)

lemma collector_connects:
  "messageCollector st = Some m \<Longrightarrow>
   \<exists>m'. messageCollector (foldl (connect ctor) st rs) = Some (m @ m')"
proof (induction rs arbitrary: st m)
  case Nil
  then show ?case by simp
next
  case (Cons r rs)
  from collector_connect [OF Cons.prems, of ctor r]
  obtain m1 where "messageCollector (connect ctor st r) = Some (m @ m1)" by blast
  from Cons.IH [OF this] show ?case by auto
qed

lemma collector_start: "\<exists>m0. messageCollector (start ctor urls (Some m)) = Some (m @ m0)"
  unfolding start_def by (rule collector_connects) simp

lemma step_recorded:
  assumes "i < length (conns st)" "live (conns st ! i)" "settled (conns st ! i) = None"
    and "messageCollector st = Some m"
    and "outcome (opened (conns st ! i)) [ev] = Some v"
    and "recorded (url (conns st ! i)) v = Some en"
  shows "\<exists>m'. messageCollector (step evt (i, ev) st) = Some m' \<and> en \<in> set m'"
  using handle_pending [OF assms(3), of ev] assms
  by (cases v) (auto simp: collector_step_live collector_note)

lemma run_recorded:
  "i < length (conns st) \<Longrightarrow> live (conns st ! i) \<Longrightarrow> settled (conns st ! i) = None \<Longrightarrow>
   messageCollector st = Some m \<Longrightarrow>
   outcome (opened (conns st ! i)) (events_of i tr) = Some v \<Longrightarrow>
   recorded (url (conns st ! i)) v = Some en \<Longrightarrow>
   \<exists>m'. messageCollector (run evt st tr) = Some m' \<and> en \<in> set m'"
proof (induction tr arbitrary: st m)
  case Nil
  then show ?case by (simp add: events_of_def)
next
  case (Cons e tr)
  obtain k ev where e: "e = (k, ev)" by (cases e)
  let ?st = "step evt e st" and ?c = "conns st ! i"
  have len: "i < length (conns ?st)" using Cons.prems by simp
  obtain m1 where m1: "messageCollector ?st = Some m1"
    using collector_step [OF Cons.prems(4), of evt e] by blast
  show ?case
  proof (cases "k = i")
    case False
    then have same: "conns ?st ! i = ?c"
      using Cons.prems by (auto simp: e conns_step)
    from Cons.IH [OF len _ _ m1] same Cons.prems False show ?thesis
      by (simp add: e events_of_Cons)
  next
    case True
    have c': "conns ?st ! i = fst (handle ev ?c)"
      using Cons.prems True by (simp add: e conns_step)
    have oc: "outcome (opened ?c) (events_of i (e # tr)) =
        (case outcome (opened ?c) [ev] of Some v \<Rightarrow> Some v
         | None \<Rightarrow> outcome (opened ?c \<or> ev = Open) (events_of i tr))"
      using True outcome_Cons [of "opened ?c" ev "events_of i tr"]
      by (simp add: e events_of_Cons)
    show ?thesis
    proof (cases "outcome (opened ?c) [ev]")
      case None
      with handle_pending [OF Cons.prems(3), of ev]
      have "settled (conns ?st ! i) = None" by (simp add: c')
      moreover have "live (conns ?st ! i)" using Cons.prems by (simp add: c')
      moreover have "outcome (opened (conns ?st ! i)) (events_of i tr) = Some v"
        using Cons.prems(5) None by (simp add: oc c')
      moreover have "recorded (url (conns ?st ! i)) v = Some en"
        using Cons.prems(6) by (simp add: c')
      ultimately show ?thesis using Cons.IH [OF len _ _ m1] by simp
    next
      case (Some w)
      then have "w = v" using Cons.prems(5) by (simp add: oc)
      with Some step_recorded [OF Cons.prems(1-4) _ Cons.prems(6), of ev evt]
      obtain m2 where m2: "messageCollector ?st = Some m2" "en \<in> set m2"
        using True by (auto simp: e)
      from collector_run [OF m2(1), of evt tr] m2(2) show ?thesis by auto
    qed
  qed
qed

lemma start_recorded:
  "messageCollector st = Some m \<Longrightarrow> r \<in> set rs \<Longrightarrow> ctor r = Some e \<Longrightarrow>
   \<exists>m'. messageCollector (foldl (connect ctor) st rs) = Some m' \<and>
     (ConnectionError, r, JStr (''Connection failed: '' @ e)) \<in> set m'"
proof (induction rs arbitrary: st m)
  case Nil
  then show ?case by simp
next
  case (Cons a rs)
  obtain m1 where m1: "messageCollector (connect ctor st a) = Some (m @ m1)"
    using collector_connect [OF Cons.prems(1), of ctor a] by blast
  show ?case
  proof (cases "a = r")
    case True
    then have "messageCollector (connect ctor st a) =
        Some (m @ [(ConnectionError, r, JStr (''Connection failed: '' @ e))])"
      using Cons.prems by (simp add: connect_def collector_note)
    from collector_connects [OF this, of ctor rs] show ?thesis by auto
  next
    case False
    then have "r \<in> set rs" using Cons.prems by simp
    from Cons.IH [OF m1 this Cons.prems(3)] show ?thesis by simp
  qed
qed

lemma publish_recorded:
  assumes "j < length urls" and "relay_result ctor urls tr j = Some v"
    and "recorded (urls ! j) v = Some en"
  shows "\<exists>m'. messageCollector (snd (publishToRelays ctor evt urls (Some m) tr)) = Some m'
           \<and> en \<in> set m'"
proof (cases "ctor (urls ! j)")
  case None
  let ?st = "start ctor urls (Some m)"
  have c: "conns ?st ! j = mk_conn ctor (urls ! j)" using assms(1) by (simp add: conns_start)
  obtain m0 where m0: "messageCollector ?st = Some m0"
    using collector_start [of ctor urls m] by blast
  have "\<exists>m'. messageCollector (run evt ?st tr) = Some m' \<and> en \<in> set m'"
    using assms None
    by (intro run_recorded [OF _ _ _ m0, of j tr v en evt])
       (simp_all add: c mk_conn_def conns_start relay_result_def)
  then show ?thesis by (simp add: publishToRelays_def Let_def)
next
  case (Some e)
  then have en: "en = (ConnectionError, urls ! j, JStr (''Connection failed: '' @ e))"
    using assms by (auto simp: relay_result_def)
  have "urls ! j \<in> set urls" using assms(1) by simp
  have "\<exists>m0. messageCollector (start ctor urls (Some m)) = Some m0 \<and> en \<in> set m0"
    unfolding start_def en
    by (rule start_recorded [where m = m and r = "urls ! j" and e = e])
       (simp_all add: Some \<open>urls ! j \<in> set urls\<close>)
  then obtain m0 where m0: "messageCollector (start ctor urls (Some m)) = Some m0"
    "en \<in> set m0" by blast
  from collector_run [OF m0(1), of evt tr] m0(2) show ?thesis
    by (auto simp: publishToRelays_def Let_def)
qed


section \<open>The collector and the socket calls of a whole run\<close>

lemma collector_note_exact:
  "messageCollector (record_note r n st) =
     map_option (\<lambda>m. m @ (case n of None \<Rightarrow> []
                | Some (Rejected x) \<Rightarrow> [(RelayRejection, r, x)]
                | Some (Failed s) \<Rightarrow> [(ConnectionError, r, JStr s)])) (messageCollector st)"
  by (cases "messageCollector st")
     (simp_all add: record_note_def addRelayRejection_def addConnectionError_def
      split: option.splits relay_note.splits)

lemma handle_entries:
  "(case fst (snd (handle ev c)) of None \<Rightarrow> []
    | Some (Rejected x) \<Rightarrow> [(RelayRejection, url c, x)]
    | Some (Failed s) \<Rightarrow> [(ConnectionError, url c, JStr s)]) =
   event_entries (url c) (opened c) ev"
  using verdict_cases [of "case ev of Message f \<Rightarrow> f | _ \<Rightarrow> None"]
  by (cases ev) (auto simp: handle_def onmessage_verdict split: option.splits relay_outcome.splits)

lemma collector_step_exact:
  "messageCollector (step evt (i, ev) st) =
     map_option (\<lambda>m. m @ (if i < length (conns st) \<and> live (conns st ! i)
                           then event_entries (url (conns st ! i)) (opened (conns st ! i)) ev
                           else [])) (messageCollector st)"
proof (cases "i < length (conns st) \<and> live (conns st ! i)")
  case True
  then show ?thesis
    by (simp add: collector_step_live collector_note_exact handle_entries)
next
  case False
  then show ?thesis by (cases "messageCollector st") (auto simp: step_def)
qed

lemma map_option_append:
  "map_option (\<lambda>m. m @ b) (map_option (\<lambda>m. m @ a) x) = map_option (\<lambda>m. m @ a @ b) x"
  by (cases x) simp_all

lemma events_of_snoc:
  "events_of j (before @ [(i, ev)]) = events_of j before @ (if i = j then [ev] else [])"
  by (simp add: events_of_def)

lemma collector_run_exact:
  "length (conns st) = length urls \<Longrightarrow>
   \<forall>j<length urls. url (conns st ! j) = urls ! j \<and> live (conns st ! j) = (ctor (urls ! j) = None) \<and>
      (live (conns st ! j) \<longrightarrow> opened (conns st ! j) = (Open \<in> set (events_of j before))) \<Longrightarrow>
   messageCollector (run evt st tr) =
     map_option (\<lambda>m. m @ trace_entries ctor urls before tr) (messageCollector st)"
proof (induction tr arbitrary: st before)
  case Nil
  then show ?case by (simp add: option.map_ident)
next
  case (Cons e tr)
  obtain i ev where e: "e = (i, ev)" by (cases e)
  let ?st = "step evt e st"
  have len: "length (conns ?st) = length urls" using Cons.prems by simp
  have inv: "\<forall>j<length urls. url (conns ?st ! j) = urls ! j \<and>
      live (conns ?st ! j) = (ctor (urls ! j) = None) \<and>
      (live (conns ?st ! j) \<longrightarrow> opened (conns ?st ! j) = (Open \<in> set (events_of j (before @ [e]))))"
    using Cons.prems by (auto simp: e conns_step events_of_snoc)
  let ?A = "if i < length urls \<and> ctor (urls ! i) = None
      then event_entries (urls ! i) (Open \<in> set (events_of i before)) ev else []"
  let ?B = "trace_entries ctor urls (before @ [e]) tr"
  have one: "messageCollector ?st = map_option (\<lambda>m. m @ ?A) (messageCollector st)"
    using Cons.prems by (auto simp: e collector_step_exact intro!: arg_cong2 [where f = map_option])
  have "messageCollector (run evt ?st tr) = map_option (\<lambda>m. m @ ?B) (messageCollector ?st)"
    by (rule Cons.IH [OF len inv])
  also have "\<dots> = map_option (\<lambda>m. m @ ?B) (map_option (\<lambda>m. m @ ?A) (messageCollector st))"
    by (simp only: one)
  also have "\<dots> = map_option (\<lambda>m. m @ ?A @ ?B) (messageCollector st)"
    by (rule map_option_append)
  finally show ?case by (simp add: e)
qed

lemma collector_connects_exact:
  "messageCollector (foldl (connect ctor) st rs) =
     map_option (\<lambda>m. m @ failure_entries ctor rs) (messageCollector st)"
proof (induction rs arbitrary: st)
  case Nil
  then show ?case by (simp add: failure_entries_def option.map_ident)
next
  case (Cons r rs)
  have "messageCollector (connect ctor st r) =
      map_option (\<lambda>m. m @ failure_entries ctor [r]) (messageCollector st)"
    by (cases "messageCollector st")
       (simp_all add: connect_def collector_note_exact failure_entries_def split: option.splits)
  then show ?case
    using Cons.IH [of "connect ctor st r"]
    by (simp add: map_option_append failure_entries_def)
qed

lemma collector_publish:
  "messageCollector (snd (publishToRelays ctor evt urls mc tr)) =
     map_option (\<lambda>m. m @ relay_entries ctor urls tr) mc"
proof -
  let ?st = "start ctor urls mc"
  have s: "messageCollector ?st = map_option (\<lambda>m. m @ failure_entries ctor urls) mc"
    by (simp add: start_def collector_connects_exact)
  have "messageCollector (run evt ?st tr) =
      map_option (\<lambda>m. m @ trace_entries ctor urls [] tr) (messageCollector ?st)"
    by (rule collector_run_exact) (simp_all add: conns_start mk_conn_def events_of_def)
  then show ?thesis
    by (simp add: publishToRelays_def Let_def s map_option_append relay_entries_def)
qed

lemma wire_connects:
  "wire (foldl (connect ctor) st rs) = wire st @ map Construct rs"
  by (induction rs arbitrary: st) (simp_all add: connect_def split: option.splits)

lemma wire_step: "\<exists>ws. wire (step evt e st) = wire st @ ws"
  by (cases e) (simp add: step_def Let_def split: prod.splits)

lemma wire_run: "\<exists>ws. wire (run evt st tr) = wire st @ ws"
proof (induction tr arbitrary: st)
  case Nil
  then show ?case by simp
next
  case (Cons e tr)
  from wire_step [of evt e st] obtain w1 where "wire (step evt e st) = wire st @ w1" by blast
  with Cons.IH [of "step evt e st"] show ?case by auto
qed

lemma wire_publish:
  "take (length urls) (wire (snd (publishToRelays ctor evt urls mc tr))) = map Construct urls"
proof -
  have "wire (start ctor urls mc) = map Construct urls"
    by (simp add: start_def wire_connects)
  with wire_run [of evt "start ctor urls mc" tr] show ?thesis
    by (auto simp: publishToRelays_def Let_def)
qed

lemma collector_close:
  "messageCollector (step evt (i, Close) st) = messageCollector st \<and>
   relayErrors (step evt (i, Close) st) = relayErrors st"
  by (simp add: step_def Let_def handle_def record_note_def split: prod.splits)

section \<open>publishToRelays: the claims\<close>

lemmas publish_eval =
  publishToRelays_def start_def connect_def step_def handle_def resolve_def finished_def
  record_note_def no_throw_def onmessage_def ok_frame_def is_accept_def is_reject_def
  errorMessage_def fourth_def addRelayRejection_def addConnectionError_def
  sublist_code prefix_code

text \<open>
  Claim C1, as stated, promises an entry in the collector for every relay that fails, and
  the answer true as soon as one relay accepts. A relay that closes the socket without an
  error event fails and leaves none: only \<^verbatim>\<open>onclose\<close> runs, and it records nothing. And
  when one relay accepts while the socket of another never reports anything,
  \<^verbatim>\<open>Promise.all\<close> never resolves, so nothing is returned.
\<close>

theorem close_unrecorded_accept_pending:
  "fst (publishToRelays no_throw sample_event [''wss://r''] (Some []) [(0, Open), (0, Close)])
     = Some False \<and>
   messageCollector
     (snd (publishToRelays no_throw sample_event [''wss://r''] (Some []) [(0, Open), (0, Close)]))
     = Some [] \<and>
   fst (publishToRelays no_throw sample_event [''wss://a'', ''wss://b''] (Some [])
         [(0, Open), (0, Message (Some (ok_frame ''aa'' True []))), (0, Close)]) = None"
  by (simp add: publish_eval)

text \<open>
  Claim C1, amended. \<^verbatim>\<open>publishToRelays\<close> calls the socket constructor once per relay, in
  the order of the list and before any socket event is handled (the connections are open
  side by side), and never again (no retry). Its promise resolves exactly when every relay
  has an outcome, and then with true iff some outcome is \<open>Accepted\<close>: the first event that
  settles that relay is an \<^verbatim>\<open>OK\<close> frame whose third element is true. A rejection, a
  timeout, a socket error and a constructor failure leave their entry in the collector
  under the relay's URL (\<open>recorded\<close>). The collector receives exactly \<open>relay_entries\<close>: one
  entry for each constructor that throws, each error event, each firing of the timer of an
  opened socket and each rejecting frame on an opened socket. The close handler records
  nothing, so that a relay which fails by a close without an error event has no entry for
  that failure.
\<close>

theorem publishToRelays_fan_out:
  "constructed (wire (snd (publishToRelays ctor evt urls mc tr))) = urls \<and>
   take (length urls) (wire (snd (publishToRelays ctor evt urls mc tr))) = map Construct urls \<and>
   fst (publishToRelays ctor evt urls mc tr) =
     (if \<forall>j<length urls. relay_result ctor urls tr j \<noteq> None
      then Some (\<exists>j<length urls. relay_result ctor urls tr j = Some Accepted) else None) \<and>
   (\<forall>j<length urls. \<forall>v en c.
      mc = Some c \<longrightarrow> relay_result ctor urls tr j = Some v \<longrightarrow>
      recorded (urls ! j) v = Some en \<longrightarrow>
      (\<exists>c'. messageCollector (snd (publishToRelays ctor evt urls mc tr)) = Some c' \<and>
            en \<in> set c')) \<and>
   messageCollector (snd (publishToRelays ctor evt urls mc tr)) =
     map_option (\<lambda>c. c @ relay_entries ctor urls tr) mc \<and>
   messageCollector (step evt (i, Close) st) = messageCollector st"
  using constructed_publish [of ctor evt urls mc tr] publish_value [of ctor evt urls mc tr]
    publish_recorded [of _ urls ctor tr _ _ evt] wire_publish [of urls ctor evt mc tr]
    collector_publish [of ctor evt urls mc tr] collector_close [of evt i st]
  by blast

lemmas outcome_eval =
  relay_result_def no_throw_def events_of_def verdict_def ok_frame_def is_accept_def
  is_reject_def reason_def errorMessage_def fourth_def sublist_code prefix_code

text \<open>Two relays: the first accepts, the second rejects with \<^verbatim>\<open>blocked\<close>.\<close>

theorem publishToRelays_fan_out_witness:
  "fst (publishToRelays no_throw sample_event [''wss://a'', ''wss://b''] (Some [])
         [(0, Open), (1, Open), (1, Message (Some (ok_frame ''aa'' False ''blocked''))),
          (0, Message (Some (ok_frame ''aa'' True [])))]) = Some True \<and>
   messageCollector (snd (publishToRelays no_throw sample_event [''wss://a'', ''wss://b'']
         (Some [])
         [(0, Open), (1, Open), (1, Message (Some (ok_frame ''aa'' False ''blocked''))),
          (0, Message (Some (ok_frame ''aa'' True [])))])) =
     Some [(RelayRejection, ''wss://b'', JStr ''blocked'')] \<and>
   take 2 (wire (snd (publishToRelays no_throw sample_event [''wss://a'', ''wss://b'']
         (Some [])
         [(0, Open), (1, Open), (1, Message (Some (ok_frame ''aa'' False ''blocked''))),
          (0, Message (Some (ok_frame ''aa'' True [])))]))) =
     [Construct ''wss://a'', Construct ''wss://b''] \<and>
   (\<exists>c'. messageCollector (snd (publishToRelays no_throw sample_event [''wss://a'', ''wss://b'']
         (Some [])
         [(0, Open), (1, Open), (1, Message (Some (ok_frame ''aa'' False ''blocked''))),
          (0, Message (Some (ok_frame ''aa'' True [])))])) = Some c' \<and>
      (RelayRejection, ''wss://b'', JStr ''blocked'') \<in> set c')"
proof -
  let ?urls = "[''wss://a'', ''wss://b'']"
  let ?tr = "[(0, Open), (1, Open), (1, Message (Some (ok_frame ''aa'' False ''blocked''))),
          (0, Message (Some (ok_frame ''aa'' True [])))]"
  have r0: "relay_result no_throw ?urls ?tr 0 = Some Accepted"
    by (simp add: outcome_eval)
  have r1: "relay_result no_throw ?urls ?tr 1 = Some (RejectedWith (JStr ''blocked''))"
    by (simp add: outcome_eval)
  have all: "\<forall>j<length ?urls. relay_result no_throw ?urls ?tr j \<noteq> None"
    using r0 r1 by (simp add: less_Suc_eq)
  have ex: "\<exists>j<length ?urls. relay_result no_throw ?urls ?tr j = Some Accepted"
    using r0 by (intro exI [of _ 0]) simp
  have en: "relay_entries no_throw ?urls ?tr = [(RelayRejection, ''wss://b'', JStr ''blocked'')]"
    by (simp add: relay_entries_def failure_entries_def events_of_def outcome_eval)
  note T = publishToRelays_fan_out [of no_throw sample_event ?urls "Some []" ?tr 0
      "start no_throw ?urls None"]
  from T have "fst (publishToRelays no_throw sample_event ?urls (Some []) ?tr) =
      (if \<forall>j<length ?urls. relay_result no_throw ?urls ?tr j \<noteq> None
       then Some (\<exists>j<length ?urls. relay_result no_throw ?urls ?tr j = Some Accepted) else None)"
    by blast
  with all ex have "fst (publishToRelays no_throw sample_event ?urls (Some []) ?tr) = Some True"
    by simp
  moreover from T have "messageCollector (snd (publishToRelays no_throw sample_event ?urls
      (Some []) ?tr)) = map_option (\<lambda>c. c @ relay_entries no_throw ?urls ?tr) (Some [])"
    by blast
  with en have "messageCollector (snd (publishToRelays no_throw sample_event ?urls
      (Some []) ?tr)) = Some [(RelayRejection, ''wss://b'', JStr ''blocked'')]"
    by simp
  moreover from T have "take (length ?urls) (wire (snd (publishToRelays no_throw sample_event
      ?urls (Some []) ?tr))) = map Construct ?urls"
    by blast
  then have "take 2 (wire (snd (publishToRelays no_throw sample_event ?urls
      (Some []) ?tr))) = [Construct ''wss://a'', Construct ''wss://b'']"
    by (simp add: numeral_2_eq_2)
  moreover from T r1 have "\<exists>c'. messageCollector (snd (publishToRelays no_throw sample_event ?urls
      (Some []) ?tr)) = Some c' \<and> (RelayRejection, ''wss://b'', JStr ''blocked'') \<in> set c'"
    by (elim conjE allE [of _ 1] allE [of _ "RejectedWith (JStr ''blocked'')"]
        allE [of _ "(RelayRejection, ''wss://b'', JStr ''blocked'')"] allE [of _ "[]"]) simp
  ultimately show ?thesis by blast
qed





text \<open>
  Claim C5, as stated, keeps the relay's message as the reason. An empty message is
  replaced by \<^verbatim>\<open>Unknown relay error\<close>.
\<close>

theorem empty_reason_replaced:
  "messageCollector (snd (publishToRelays no_throw sample_event [''wss://r''] (Some [])
       [(0, Open), (0, Message (Some (ok_frame ''aa'' False [])))]))
     = Some [(RelayRejection, ''wss://r'', JStr ''Unknown relay error'')]"
  by (simp add: publish_eval)


lemma onmessage_ok_false:
  "onmessage (Some (JArr (JStr ''OK'' # ident # JBool False # JStr msg # rest))) c =
     (resolve False c, Some (Rejected (JStr (noted_reason msg))), True)"
proof -
  let ?frame = "JArr (JStr ''OK'' # ident # JBool False # JStr msg # rest)"
  have em: "errorMessage ?frame = JStr (if msg = [] then ''Unknown relay error'' else msg)"
    by (simp add: errorMessage_def fourth_def)
  have "reason ?frame = Some (JStr (noted_reason msg))"
    unfolding reason_def em by (simp add: noted_reason_def Let_def)
  then have "verdict (Some ?frame) = Some (RejectedWith (JStr (noted_reason msg)))"
    by (simp add: verdict_def is_accept_def is_reject_def)
  then show ?thesis by (simp add: onmessage_verdict)
qed

text \<open>
  Claim C5, amended. On an open socket, the frame \<^verbatim>\<open>["OK", id, false, msg]\<close> with a text
  \<open>msg\<close> settles the publish with false (unless it is settled already) and leaves, in
  \<^verbatim>\<open>relayErrors\<close> and as a relay rejection in the collector, under the relay's URL, the text
  \<open>noted_reason msg\<close>: the message, or \<^verbatim>\<open>Unknown relay error\<close> for an empty one, prefixed
  with \<^verbatim>\<open>Rate limited:\<close> when it contains \<^verbatim>\<open>rate-limit\<close> or \<^verbatim>\<open>noting too much\<close>.
\<close>

theorem rejection_classified:
  assumes "i < length (conns st)" and "live (conns st ! i)" and "opened (conns st ! i)"
    and "st' = step evt (i, Message (Some (JArr (JStr ''OK'' # ident # JBool False # JStr msg # rest)))) st"
  shows "messageCollector st' =
           map_option (addRelayRejection (url (conns st ! i)) (JStr (noted_reason msg)))
             (messageCollector st) \<and>
         relayErrors st' = (relayErrors st)(url (conns st ! i) \<mapsto> JStr (noted_reason msg)) \<and>
         settled (conns st' ! i) =
           Some (case settled (conns st ! i) of None \<Rightarrow> False | Some b \<Rightarrow> b)"
  using assms
  by (simp add: step_def Let_def handle_def onmessage_ok_false record_note_def settled_resolve
      split: option.splits)

theorem rejection_classified_witness:
  "messageCollector (step sample_event
      (0, Message (Some (JArr [JStr ''OK'', JStr ''aa'', JBool False, JStr ''rate-limit: slow down''])))
      \<lparr>conns = [\<lparr>url = ''wss://r'', live = True, opened = True, settled = None\<rparr>],
       successCount = 0, relayErrors = Map.empty, messageCollector = Some [], wire = []\<rparr>)
   = Some [(RelayRejection, ''wss://r'', JStr ''Rate limited: rate-limit: slow down'')]"
  using rejection_classified [of 0
      "\<lparr>conns = [\<lparr>url = ''wss://r'', live = True, opened = True, settled = None\<rparr>],
       successCount = 0, relayErrors = Map.empty, messageCollector = Some [], wire = []\<rparr>"
      _ sample_event "JStr ''aa''" "''rate-limit: slow down''" "[]", OF _ _ _ refl]
  by (simp add: noted_reason_def addRelayRejection_def sublist_code prefix_code)

lemma outcome_accepted:
  "outcome a es = Some Accepted \<Longrightarrow> \<exists>d. Message (Some d) \<in> set es \<and> is_accept d"
proof (induction a es rule: outcome.induct)
  case (3 is_open frame es)
  then show ?case
    by (cases frame) (auto simp: verdict_def split: if_splits option.splits)
qed (auto split: if_splits)

lemma step_unparsable: "step evt (i, Message None) st = st"
  by (auto simp: step_def Let_def handle_def onmessage_def record_note_def)

lemma outcome_pending:
  "(outcome a es = None) = (\<not> ends a es \<and> \<not> answered a es)"
  by (induction a es rule: outcome.induct) (auto split: option.splits)

lemma publish_pending:
  "(fst (publishToRelays ctor evt urls mc tr) = None) =
     (\<exists>j<length urls. ctor (urls ! j) = None \<and>
        \<not> ends False (events_of j tr) \<and> \<not> answered False (events_of j tr))"
proof -
  have "(relay_result ctor urls tr j = None) =
      (ctor (urls ! j) = None \<and> \<not> ends False (events_of j tr) \<and>
       \<not> answered False (events_of j tr))" for j
    by (simp add: relay_result_def outcome_pending split: option.splits)
  then show ?thesis by (auto simp: publish_value)
qed

lemma publish_not_true:
  assumes no: "\<forall>e\<in>set tr. \<forall>d. snd e = Message (Some d) \<longrightarrow> \<not> is_accept d"
  shows "fst (publishToRelays ctor evt urls mc tr) \<noteq> Some True"
proof -
  have "relay_result ctor urls tr j \<noteq> Some Accepted" for j
  proof
    assume "relay_result ctor urls tr j = Some Accepted"
    then have "outcome False (events_of j tr) = Some Accepted"
      by (auto simp: relay_result_def split: option.splits)
    from outcome_accepted [OF this] obtain d
      where "Message (Some d) \<in> set (events_of j tr)" "is_accept d" by blast
    then show False using no by (auto simp: events_of_def)
  qed
  then show ?thesis by (simp add: publish_value)
qed

text \<open>
  Claim C9, as stated, has the call resolve for every relay list. The timer is set in
  \<^verbatim>\<open>onopen\<close> only: while a socket that was constructed neither opens nor reports an error
  nor closes, its promise stays pending and so does \<^verbatim>\<open>Promise.all\<close>, also when another
  relay has accepted.
\<close>

theorem never_opened_socket_pending:
  "fst (publishToRelays no_throw sample_event [''wss://r''] (Some []) []) = None \<and>
   fst (publishToRelays no_throw sample_event [''wss://a'', ''wss://b''] (Some [])
         [(0, Open), (0, Message (Some (ok_frame ''aa'' True [])))]) = None"
  by (simp add: publish_eval)

text \<open>
  Claim C9, amended. The model has no exception left: a constructor that throws and a
  handler that throws are caught where the source catches them. For the empty list the
  answer is false. The call stays pending exactly when some constructed socket neither
  ends (an error, a close, or the timer firing after \<^verbatim>\<open>onopen\<close>) nor is answered by an
  \<^verbatim>\<open>OK\<close> frame; so it resolves when every constructed socket ends. When it resolves and
  no accepting frame has arrived (only errors, failed connections, frames that do not
  parse or do not accept) the answer is false; without an accepting frame the answer is
  never true, and a frame that does not parse changes nothing.
\<close>

theorem publishToRelays_answers:
  "fst (publishToRelays ctor evt [] mc tr) = Some False \<and>
   ((fst (publishToRelays ctor evt urls mc tr) = None) =
      (\<exists>j<length urls. ctor (urls ! j) = None \<and>
         \<not> ends False (events_of j tr) \<and> \<not> answered False (events_of j tr))) \<and>
   ((\<forall>j<length urls. ctor (urls ! j) = None \<longrightarrow> ends False (events_of j tr)) \<longrightarrow>
      fst (publishToRelays ctor evt urls mc tr) \<noteq> None) \<and>
   ((\<forall>j<length urls. ctor (urls ! j) = None \<longrightarrow> ends False (events_of j tr)) \<longrightarrow>
    (\<forall>e\<in>set tr. \<forall>d. snd e = Message (Some d) \<longrightarrow> \<not> is_accept d) \<longrightarrow>
      fst (publishToRelays ctor evt urls mc tr) = Some False) \<and>
   ((\<forall>e\<in>set tr. \<forall>d. snd e = Message (Some d) \<longrightarrow> \<not> is_accept d) \<longrightarrow>
      fst (publishToRelays ctor evt urls mc tr) \<noteq> Some True) \<and>
   step evt (i, Message None) st = st"
proof -
  let ?r = "fst (publishToRelays ctor evt urls mc tr)"
  have empty: "fst (publishToRelays ctor evt [] mc tr) = Some False"
    by (simp add: publish_value)
  have pending: "(?r = None) =
      (\<exists>j<length urls. ctor (urls ! j) = None \<and>
         \<not> ends False (events_of j tr) \<and> \<not> answered False (events_of j tr))"
    by (rule publish_pending)
  have resolves: "?r \<noteq> None"
    if "\<forall>j<length urls. ctor (urls ! j) = None \<longrightarrow> ends False (events_of j tr)"
    using that pending by blast
  have not_true: "?r \<noteq> Some True"
    if "\<forall>e\<in>set tr. \<forall>d. snd e = Message (Some d) \<longrightarrow> \<not> is_accept d"
    using that by (rule publish_not_true)
  have false: "?r = Some False"
    if "\<forall>j<length urls. ctor (urls ! j) = None \<longrightarrow> ends False (events_of j tr)"
      and "\<forall>e\<in>set tr. \<forall>d. snd e = Message (Some d) \<longrightarrow> \<not> is_accept d"
    using resolves [OF that(1)] not_true [OF that(2)] by (cases ?r) auto
  show ?thesis
    using empty pending resolves not_true false step_unparsable [of evt i st] by blast
qed

theorem publishToRelays_answers_witness:
  "fst (publishToRelays (\<lambda>u. if u = ''nonsense'' then Some ''SyntaxError'' else None)
         sample_event [''nonsense'', ''wss://b'', ''wss://c''] None
         [(1, Open), (2, Error ''refused''), (1, Message None), (1, Timeout), (2, Close)])
     = Some False"
proof -
  let ?ctor = "\<lambda>u. if u = ''nonsense'' then Some ''SyntaxError'' else None"
  let ?urls = "[''nonsense'', ''wss://b'', ''wss://c'']"
  let ?tr = "[(1, Open), (2, Error ''refused''), (1, Message None), (1, Timeout), (2, Close)]"
  note T = publishToRelays_answers [of ?ctor sample_event None ?tr ?urls 0
      "start ?ctor ?urls None"]
  have 1: "\<forall>j<length ?urls. ?ctor (?urls ! j) = None \<longrightarrow> ends False (events_of j ?tr)"
    by (simp add: less_Suc_eq events_of_def)
  have 2: "\<forall>e\<in>set ?tr. \<forall>d. snd e = Message (Some d) \<longrightarrow> \<not> is_accept d" by simp
  from T 1 2 show ?thesis by blast
qed

section \<open>Properties of the command's building blocks\<close>

lemma each_after_append:
  "each_after G before (xs @ ys) = (each_after G before xs \<and> each_after G (before @ xs) ys)"
  by (induction xs arbitrary: before) auto

lemma bind_ret [simp]: "bind (ret x) k = k x"
  by (rule ext) (simp add: bind_def ret_def)

lemma bind_emit [simp]: "bind (emit a) k s = k () (s\<lparr>trail := trail s @ [a]\<rparr>)"
  by (simp add: bind_def emit_def)

lemma bind_exit [simp]: "bind (exit n) k = exit n"
  by (rule ext) (simp add: bind_def exit_def)

lemma bind_attempt [simp]:
  "bind (attempt r) k s = (case r of Inl e \<Rightarrow> (Throw e, s) | Inr x \<Rightarrow> k x s)"
  by (simp add: bind_def attempt_def split: sum.splits)

lemma bind_seconds [simp]:
  "bind (seconds w) k s = k (now w (ticks s) div 1000) (s\<lparr>ticks := ticks s + 1\<rparr>)"
  by (simp add: bind_def seconds_def)

lemma bind_collect [simp]: "bind (collect upd) k s = k () (s\<lparr>collected := upd (collected s)\<rparr>)"
  by (simp add: bind_def collect_def)

lemma bind_assoc [simp]: "bind (bind m k) h = bind m (\<lambda>x. bind (k x) h)"
  by (rule ext) (simp add: bind_def split: prod.splits res.splits)

lemmas prog_defs = ret_def emit_def exit_def attempt_def collect_def seconds_def catch_def

lemma deleteFromServer_run:
  "deleteFromServer w sg f h server s =
     (Val (), s\<lparr>trail := trail s @ authSegment w sg f h server (ticks s), ticks := ticks s + 2\<rparr>)"
  by (simp add: deleteFromServer_def signEvent_def authSegment_def Let_def prog_defs
      split: sum.splits option.splits)

lemma deleteFromServers_run:
  "deleteFromServers w sg f h sl s =
     (Val (), s\<lparr>trail := trail s @ authSegments w sg f h sl (ticks s),
                ticks := ticks s + 2 * length sl\<rparr>)"
proof (induction sl arbitrary: s)
  case Nil
  then show ?case by (simp add: ret_def)
next
  case (Cons server sl)
  show ?case
    by (simp add: bind_def deleteFromServer_run Cons.IH)
qed

lemma publish_answer:
  "fst (publishToRelays ctor evt urls c tr) = fst (publishToRelays ctor evt urls None tr)"
  by (simp add: publish_value)

lemma purgeFile_lacks: "lacks f \<Longrightarrow> purgeFile w sg rl sl f s = (Val False, s)"
  by (simp add: purgeFile_def lacks_def prog_defs)

lemma purgeFile_cases:
  assumes "\<not> lacks f" and "purgeFile w sg rl sl f s = (r, s')"
  shows "(\<exists>e. sg (deletionOf w f (ticks s)) = Inl e \<and> r = Val False \<and>
            trail s' = trail s @ [Sign (deletionOf w f (ticks s))]) \<or>
         (\<exists>d. sg (deletionOf w f (ticks s)) = Inr d \<and>
            fst (publishToRelays (webSocket w) d rl None (traffic w d)) = None \<and>
            r = Stop Hung \<and>
            trail s' = trail s @ [Sign (deletionOf w f (ticks s)), Publish d rl]) \<or>
         (\<exists>d. sg (deletionOf w f (ticks s)) = Inr d \<and>
            fst (publishToRelays (webSocket w) d rl None (traffic w d)) \<noteq> None \<and>
            r = Val True \<and>
            trail s' = trail s @ [Sign (deletionOf w f (ticks s)), Publish d rl] @
              authSegments w sg f (the (sha256 f)) sl (ticks s + 2))"
proof (cases "sg (deletionOf w f (ticks s))")
  case (Inl e)
  then show ?thesis
    using assms by (auto simp: purgeFile_def lacks_def deletionOf_def signEvent_def prog_defs)
next
  case (Inr d)
  let ?ans = "fst (publishToRelays (webSocket w) d rl (Some (collected s)) (traffic w d))"
  have ans: "?ans = fst (publishToRelays (webSocket w) d rl None (traffic w d))"
    by (rule publish_answer)
  show ?thesis
  proof (cases ?ans)
    case None
    then show ?thesis
      using assms Inr ans
      by (auto simp: purgeFile_def lacks_def deletionOf_def signEvent_def prog_defs bind_def
          publish_def Let_def split: prod.splits)
  next
    case (Some b)
    then show ?thesis
      using assms Inr ans
      by (auto simp: purgeFile_def lacks_def deletionOf_def signEvent_def prog_defs bind_def
          publish_def Let_def deleteFromServers_run split: prod.splits)
  qed
qed

lemma each_after_mono:
  "(\<And>b x. G b x \<Longrightarrow> G' b x) \<Longrightarrow> each_after G before l \<Longrightarrow> each_after G' before l"
  by (induction l arbitrary: before) auto

lemma authorized_mono:
  "set fs \<subseteq> set fs' \<Longrightarrow> set sl \<subseteq> set sl' \<Longrightarrow> authorized w sg sl fs b x \<Longrightarrow>
   authorized w sg sl' fs' b x"
  unfolding authorized_def by (intro allI impI) blast

lemma authorized_other [simp]:
  "authorized w sg sl fs b (Sign t)" "authorized w sg sl fs b (Publish d rl)"
  by (simp_all add: authorized_def)

lemma authSegment_authorized:
  assumes "sha256 f = Some h"
  shows "each_after (authorized w sg [server] [f]) before (authSegment w sg f h server k)"
proof -
  let ?t = "deleteAuthTemplate (now w k div 1000) (now w (Suc k) div 1000) h (path f)"
  show ?thesis
  proof (cases "sg ?t")
    case (Inl e)
    then show ?thesis by (simp add: authSegment_def Let_def)
  next
    case (Inr d)
    show ?thesis
    proof (cases "btoa_json w d")
      case None
      then show ?thesis using Inr by (simp add: authSegment_def Let_def)
    next
      case (Some b)
      have "authorizes w sg f server (before @ [Sign ?t])
              (serverUrl server @ h) (''Nostr '' @ b)"
        unfolding authorizes_def
        using assms Inr Some
        by (intro exI [of _ h] exI [of _ k]
            exI [of _ "''nsyte: delete file: '' @ h @ '' | '' @ path f"]
            exI [of _ d] exI [of _ b])
           (simp add: deleteAuthTemplate_def)
      then have "authorized w sg [server] [f] (before @ [Sign ?t])
              (Delete (serverUrl server @ h) (''Nostr '' @ b))"
        by (simp add: authorized_def)
      then show ?thesis using Inr Some by (simp add: authSegment_def Let_def)
    qed
  qed
qed

lemma authSegments_authorized:
  assumes "sha256 f = Some h"
  shows "each_after (authorized w sg sl [f]) before (authSegments w sg f h sl k)"
proof (induction sl arbitrary: before k)
  case Nil
  then show ?case by simp
next
  case (Cons server sl)
  have 1: "each_after (authorized w sg (server # sl) [f]) before (authSegment w sg f h server k)"
    by (rule each_after_mono [OF _ authSegment_authorized [OF assms]])
       (erule authorized_mono [rotated 2], simp_all)
  have 2: "each_after (authorized w sg (server # sl) [f])
             (before @ authSegment w sg f h server k) (authSegments w sg f h sl (k + 2))"
    by (rule each_after_mono [OF _ Cons.IH]) (erule authorized_mono [rotated 2], auto)
  from 1 2 show ?case by (simp add: each_after_append)
qed

lemma purgeFile_authorized:
  assumes "purgeFile w sg rl sl f s = (r, s')"
  shows "\<exists>l. trail s' = trail s @ l \<and> each_after (authorized w sg sl [f]) (trail s) l"
proof (cases "lacks f")
  case True
  with assms show ?thesis by (simp add: purgeFile_lacks)
next
  case False
  then obtain h where h: "sha256 f = Some h"
    by (auto simp: lacks_def truthy_str_def split: option.splits)
  from purgeFile_cases [OF False assms] show ?thesis
  proof (elim disjE exE conjE)
    fix d
    assume "trail s' = trail s @ [Sign (deletionOf w f (ticks s)), Publish d rl] @
              authSegments w sg f (the (sha256 f)) sl (ticks s + 2)"
    then show ?thesis
      using authSegments_authorized [OF h, of w sg sl
          "trail s @ [Sign (deletionOf w f (ticks s)), Publish d rl]" "ticks s + 2"]
      by (intro exI [of _ "[Sign (deletionOf w f (ticks s)), Publish d rl] @
              authSegments w sg f h sl (ticks s + 2)"]) (simp add: h)
  qed auto
qed

lemma purgeLoop_each:
  assumes one: "\<And>f s r s'. purgeFile w sg rl sl f s = (r, s') \<Longrightarrow>
              \<exists>l. trail s' = trail s @ l \<and> each_after (G [f]) (trail s) l"
    and mono: "\<And>fs fs' b x. set fs \<subseteq> set fs' \<Longrightarrow> G fs b x \<Longrightarrow> G fs' b x"
  shows "purgeLoop w sg rl sl fs counts s = (r, s') \<Longrightarrow>
         \<exists>l. trail s' = trail s @ l \<and> each_after (G fs) (trail s) l"
proof (induction fs arbitrary: counts s)
  case Nil
  then show ?case by (simp add: ret_def)
next
  case (Cons f fs)
  obtain r1 s1 where first: "purgeFile w sg rl sl f s = (r1, s1)"
    by (cases "purgeFile w sg rl sl f s")
  from one [OF first] obtain l1
    where l1: "trail s1 = trail s @ l1" "each_after (G [f]) (trail s) l1"
    by blast
  have l1': "each_after (G (f # fs)) (trail s) l1"
    by (rule each_after_mono [OF _ l1(2)]) (erule mono [rotated], simp)
  show ?case
  proof (cases r1)
    case (Val completed)
    with Cons.prems first
    have "purgeLoop w sg rl sl fs
            (if completed then (fst counts + 1, snd counts) else (fst counts, snd counts + 1)) s1
          = (r, s')"
      by (simp add: bind_def)
    from Cons.IH [OF this] obtain l2
      where l2: "trail s' = trail s1 @ l2" "each_after (G fs) (trail s1) l2"
      by blast
    have "each_after (G (f # fs)) (trail s @ l1) l2"
      by (rule each_after_mono [OF _ l2(2) [unfolded l1(1)]]) (erule mono [rotated], auto)
    with l1' l1(1) l2(1) show ?thesis
      by (intro exI [of _ "l1 @ l2"]) (simp add: each_after_append)
  next
    case (Throw e)
    with Cons.prems first have "s' = s1" by (simp add: bind_def)
    with l1 l1' show ?thesis by blast
  next
    case (Stop h)
    with Cons.prems first have "s' = s1" by (simp add: bind_def)
    with l1 l1' show ?thesis by blast
  qed
qed


lemma causal_other [simp]:
  "causal w sg rl sl fs b (Sign t)" "causal w sg rl sl fs b (Publish d rl')"
  by (simp_all add: causal_def)





lemma purgeLoop_skip:
  "lacks f \<Longrightarrow>
   purgeLoop w sg rl sl (f # fs) (completed, failed) s =
   purgeLoop w sg rl sl fs (completed, failed + 1) s"
  by (simp add: bind_def purgeFile_lacks)

section \<open>Properties of the command's stages\<close>

lemma addsD:
  "adds P E T m \<Longrightarrow> m s = (r, s') \<Longrightarrow>
   (\<exists>l. trail s' = trail s @ l \<and> list_all P l) \<and>
   (case r of Val x \<Rightarrow> True | Throw e \<Rightarrow> T | Stop h \<Rightarrow> E h)"
  by (simp add: adds_def)

lemma adds_ret [intro!]: "adds P E T (ret x)"
  by (simp add: adds_def ret_def)

lemma adds_emit [intro!]: "P a \<Longrightarrow> adds P E T (emit a)"
  by (auto simp: adds_def emit_def)

lemma adds_exit [intro!]: "E (Exited n) \<Longrightarrow> adds P E T (exit n)"
  by (auto simp: adds_def exit_def)

lemma adds_attempt [intro!]: "T \<Longrightarrow> adds P E T (attempt r)"
  by (auto simp: adds_def attempt_def split: sum.splits)

lemma adds_collect [intro!]: "adds P E T (collect upd)"
  by (auto simp: adds_def collect_def)

lemma adds_seconds [intro!]: "adds P E T (seconds w)"
  by (auto simp: adds_def seconds_def)

lemma adds_publish [intro!]: "P (Publish evt rl) \<Longrightarrow> E Hung \<Longrightarrow> adds P E T (publish w evt rl)"
  by (auto simp: adds_def publish_def Let_def split: prod.splits option.splits)

lemma adds_bind [intro!]:
  assumes "adds P E T m" and "\<And>x. adds P E T (k x)"
  shows "adds P E T (bind m k)"
  unfolding adds_def
proof (intro allI impI)
  fix s r s'
  assume run: "bind m k s = (r, s')"
  obtain r1 s1 where m: "m s = (r1, s1)" by (cases "m s")
  from addsD [OF assms(1) m] obtain l1
    where l1: "trail s1 = trail s @ l1" "list_all P l1"
      and r1: "case r1 of Val x \<Rightarrow> True | Throw e \<Rightarrow> T | Stop h \<Rightarrow> E h"
    by blast
  show "(\<exists>l. trail s' = trail s @ l \<and> list_all P l) \<and>
        (case r of Val x \<Rightarrow> True | Throw e \<Rightarrow> T | Stop h \<Rightarrow> E h)"
  proof (cases r1)
    case (Val x)
    with run m have "k x s1 = (r, s')" by (simp add: bind_def)
    from addsD [OF assms(2) this] l1 show ?thesis by auto
  next
    case (Throw e)
    with run m have "r = Throw e" "s' = s1" by (simp_all add: bind_def)
    with l1 r1 Throw show ?thesis by auto
  next
    case (Stop h)
    with run m have "r = Stop h" "s' = s1" by (simp_all add: bind_def)
    with l1 r1 Stop show ?thesis by auto
  qed
qed

lemma adds_catch [intro!]:
  assumes "adds P E True m" and "\<And>e. adds P E T (h e)"
  shows "adds P E T (catch m h)"
  unfolding adds_def
proof (intro allI impI)
  fix s r s'
  assume run: "catch m h s = (r, s')"
  obtain r1 s1 where m: "m s = (r1, s1)" by (cases "m s")
  from addsD [OF assms(1) m] obtain l1
    where l1: "trail s1 = trail s @ l1" "list_all P l1"
      and r1: "case r1 of Val x \<Rightarrow> True | Throw e \<Rightarrow> True | Stop h \<Rightarrow> E h"
    by blast
  show "(\<exists>l. trail s' = trail s @ l \<and> list_all P l) \<and>
        (case r of Val x \<Rightarrow> True | Throw e \<Rightarrow> T | Stop h \<Rightarrow> E h)"
  proof (cases r1)
    case (Val x)
    with run m have "r = Val x" "s' = s1" by (simp_all add: catch_def)
    with l1 show ?thesis by auto
  next
    case (Throw e)
    with run m have "h e s1 = (r, s')" by (simp add: catch_def)
    from addsD [OF assms(2) this] l1 show ?thesis by auto
  next
    case (Stop x)
    with run m have "r = Stop x" "s' = s1" by (simp_all add: catch_def)
    with l1 r1 Stop show ?thesis by auto
  qed
qed

lemma adds_if [intro!]:
  "(c \<Longrightarrow> adds P E T a) \<Longrightarrow> (\<not> c \<Longrightarrow> adds P E T b) \<Longrightarrow> adds P E T (if c then a else b)"
  by simp

lemma adds_case_option [intro!]:
  "(x = None \<Longrightarrow> adds P E T a) \<Longrightarrow> (\<And>y. x = Some y \<Longrightarrow> adds P E T (b y)) \<Longrightarrow>
   adds P E T (case x of None \<Rightarrow> a | Some y \<Rightarrow> b y)"
  by (cases x) simp_all

lemma adds_case_sum [intro!]:
  "(\<And>y. x = Inl y \<Longrightarrow> adds P E T (a y)) \<Longrightarrow> (\<And>y. x = Inr y \<Longrightarrow> adds P E T (b y)) \<Longrightarrow>
   adds P E T (case x of Inl y \<Rightarrow> a y | Inr y \<Rightarrow> b y)"
  by (cases x) simp_all

lemma adds_case_prod [intro!]:
  "(\<And>a b. x = (a, b) \<Longrightarrow> adds P E T (f a b)) \<Longrightarrow> adds P E T (case x of (a, b) \<Rightarrow> f a b)"
  by (cases x) simp

lemma adds_case_list [intro!]:
  "(x = [] \<Longrightarrow> adds P E T a) \<Longrightarrow> (\<And>y ys. x = y # ys \<Longrightarrow> adds P E T (b y ys)) \<Longrightarrow>
   adds P E T (case x of [] \<Rightarrow> a | y # ys \<Rightarrow> b y ys)"
  by (cases x) simp_all

lemma adds_prepare: "adds quiet (\<lambda>h. True) True (prepare w opts folder)"
  unfolding prepare_def loadProject_def requireProject_def chooseSigner_def askBunker_def
    copyFallback_def scanLocal_def fetchRemote_def
  by (intro adds_bind adds_if adds_case_option adds_case_prod adds_catch adds_emit adds_exit
      adds_attempt adds_ret) simp_all

lemma quiet_unloaded: "quiet a \<Longrightarrow> unloaded a"
  by (cases a) simp_all

lemma loads_append: "loads (xs @ ys) = loads xs @ loads ys"
  by (induction xs rule: loads.induct) simp_all

lemma loads_unloaded: "list_all unloaded l \<Longrightarrow> loads l = []"
  by (induction l rule: loads.induct) simp_all

lemma loads_quiet: "list_all quiet l \<Longrightarrow> loads l = []"
  by (rule loads_unloaded) (auto simp: list_all_iff quiet_unloaded)

lemma adds_val:
  assumes "adds P (\<lambda>h. False) False m"
  shows "\<exists>x s' l. m s = (Val x, s') \<and> trail s' = trail s @ l \<and> list_all P l"
proof -
  obtain r s' where run: "m s = (r, s')" by (cases "m s")
  from addsD [OF assms run] show ?thesis using run by (cases r) auto
qed

lemma adds_case_bool [intro!]:
  "(x \<Longrightarrow> adds P E T a) \<Longrightarrow> (\<not> x \<Longrightarrow> adds P E T b) \<Longrightarrow>
   adds P E T (case x of True \<Rightarrow> a | False \<Rightarrow> b)"
  by (cases x) simp_all

lemma adds_headServers: "adds quiet E T (headServers w h sl)"
proof (induction sl)
  case Nil
  show ?case unfolding headServers.simps by (rule adds_ret)
next
  case (Cons server sl)
  show ?case
    unfolding headServers.simps
    by (intro adds_bind adds_emit adds_case_sum adds_case_bool adds_ret Cons.IH) simp
qed

lemma headServers_found:
  "\<exists>server\<in>set sl. fetchHEAD w (serverUrl server @ h) = Inr True \<Longrightarrow>
   \<exists>server s'. headServers w h sl s = (Val (Some server), s')"
proof (induction sl arbitrary: s)
  case Nil
  then show ?case by simp
next
  case (Cons a sl)
  show ?case
  proof (cases "fetchHEAD w (serverUrl a @ h) = Inr True")
    case True
    then show ?thesis by (simp add: ret_def)
  next
    case False
    with Cons.prems have "\<exists>server\<in>set sl. fetchHEAD w (serverUrl server @ h) = Inr True"
      by auto
    from Cons.IH [OF this] False show ?thesis
      by (auto split: sum.splits bool.splits)
  qed
qed

lemma adds_probe: "adds quiet E T (probe w opts ls rs sl)"
  unfolding probe_def
  by (intro adds_bind adds_if adds_case_option adds_case_list adds_headServers adds_emit
      adds_ret) simp_all

lemma probe_found:
  assumes "sha256 f = Some h" and "h \<noteq> []"
    and "\<exists>server\<in>set sl. fetchHEAD w (serverUrl server @ h) = Inr True"
  shows "\<exists>s' l. probe w opts (f # fs) [] sl s =
           (Val (if isInteractive w \<or> \<not> force opts then mayExist else []), s') \<and>
         trail s' = trail s @ l \<and> list_all quiet l"
proof -
  obtain r s' where run: "probe w opts (f # fs) [] sl s = (r, s')"
    by (cases "probe w opts (f # fs) [] sl s")
  from addsD [OF adds_probe run] obtain l where l: "trail s' = trail s @ l" "list_all quiet l"
    by blast
  from headServers_found [OF assms(3), of s] obtain server s1
    where hs: "headServers w h sl s = (Val (Some server), s1)" by blast
  have "r = Val (if isInteractive w \<or> \<not> force opts then mayExist else [])"
    using run assms(1,2) hs
    by (auto simp: probe_def truthy_str_def bind_def ret_def emit_def split: if_splits)
  with run l show ?thesis by blast
qed

lemma compareFiles_no_remote: "compareFiles ls [] = (ls, [], [])"
  by (simp add: compareFiles_def)

lemma decide_alt:
  "decide w opts rs msg toTransfer existing toDelete =
     (if nothing_new opts rs msg toTransfer toDelete
      then
        bind (emit (Say (if isInteractive w
                then ''No changes detected. Use --force to upload all files anyway.''
                else ''No files to upload or delete. Use --force to upload all files.''))) (\<lambda>_.
          if \<not> nonInteractive opts then
            bind (emit (Ask ''Do you want to force upload all files anyway?'')) (\<lambda>_.
            bind (attempt (confirmPrompt w)) (\<lambda>forceUpload.
              if forceUpload then ret (toTransfer @ existing)
              else nothingToDo w))
          else if force opts then ret (toTransfer @ existing)
          else nothingToDo w)
      else ret toTransfer)"
  by (simp only: decide_def nothing_new_def)

lemma decide_stop:
  assumes "nothing_new opts rs msg toTransfer toDelete" and "\<not> force opts"
    and "nonInteractive opts \<or> confirmPrompt w = Inr False"
  shows "\<exists>s' l. decide w opts rs msg toTransfer existing toDelete s = (Stop (Exited 0), s') \<and>
           trail s' = trail s @ l \<and> list_all quiet l"
  using assms
  by (auto simp: decide_alt nothingToDo_def exit_def)

lemma decide_pass:
  "\<not> nothing_new opts rs msg toTransfer toDelete \<Longrightarrow>
   decide w opts rs msg toTransfer existing toDelete s = (Val toTransfer, s)"
  by (simp add: decide_alt ret_def)

lemma decide_confirmed:
  assumes "nothing_new opts rs msg toTransfer toDelete"
    and "\<not> nonInteractive opts" and "confirmPrompt w = Inr True"
  shows "\<exists>s' l. decide w opts rs msg toTransfer existing toDelete s =
           (Val (toTransfer @ existing), s') \<and>
           trail s' = trail s @ l \<and> list_all quiet l"
  using assms
  by (auto simp: decide_alt ret_def)

lemma adds_decide: "adds quiet (\<lambda>h. True) True (decide w opts rs msg toTransfer existing toDelete)"
  unfolding decide_def nothingToDo_def
  by (intro adds_bind adds_if adds_emit adds_attempt adds_exit adds_ret) simp_all

lemma adds_reconcile: "adds quiet (\<lambda>h. True) True (reconcile w opts p)"
  unfolding reconcile_def
  by (intro adds_bind adds_if adds_case_prod adds_probe adds_decide adds_emit adds_ret) simp_all

lemma probe_val:
  "\<exists>msg s' l. probe w opts ls rs sl s = (Val msg, s') \<and> trail s' = trail s @ l \<and>
      list_all quiet l"
  by (rule adds_val [OF adds_probe])

lemma reconcile_after_probe:
  assumes "probe w opts (localFiles p) (remoteFiles p) (serverList p) s = (Val msg, s1)"
    and "compareFiles (localFiles p) (remoteFiles p) = (toTransfer, existing, toDelete)"
  shows "reconcile w opts p s =
     bind (decide w opts (remoteFiles p) msg toTransfer existing toDelete)
       (\<lambda>toTransfer'. ret (toTransfer', toDelete))
       (if msg \<noteq> [] then s1\<lparr>trail := trail s1 @ [Say msg]\<rparr> else s1)"
  using assms by (simp add: reconcile_def bind_def ret_def emit_def)

lemma reconcile_nothing_to_do:
  assumes "compareFiles (localFiles p) (remoteFiles p) = ([], existing, [])"
    and "\<not> force opts" and "nonInteractive opts \<or> confirmPrompt w = Inr False"
  shows "\<exists>s'. reconcile w opts p s = (Stop (Exited 0), s')"
proof -
  from probe_val obtain msg s1
    where pr: "probe w opts (localFiles p) (remoteFiles p) (serverList p) s = (Val msg, s1)"
    by blast
  let ?s2 = "if msg \<noteq> [] then s1\<lparr>trail := trail s1 @ [Say msg]\<rparr> else s1"
  have "nothing_new opts (remoteFiles p) msg [] []" by (simp add: nothing_new_def)
  from decide_stop [OF this assms(2,3), of existing ?s2] obtain s'
    where "decide w opts (remoteFiles p) msg [] existing [] ?s2 = (Stop (Exited 0), s')"
    by blast
  then show ?thesis
    by (simp add: reconcile_after_probe [OF pr assms(1)] bind_def)
qed

lemma reconcile_ambiguous:
  assumes "remoteFiles p = []" and "localFiles p = f # fs" and "sha256 f = Some h"
    and "h \<noteq> []"
    and "\<exists>server\<in>set (serverList p). fetchHEAD w (serverUrl server @ h) = Inr True"
  shows "(\<not> force opts \<longrightarrow> nonInteractive opts \<or> confirmPrompt w = Inr False \<longrightarrow>
            (\<exists>s'. reconcile w opts p s = (Stop (Exited 0), s') \<and>
                  Say mayExist \<in> set (trail s'))) \<and>
         (force opts \<or> \<not> nonInteractive opts \<and> confirmPrompt w = Inr True \<longrightarrow>
            (\<exists>s'. reconcile w opts p s = (Val (localFiles p, []), s')))"
proof -
  let ?msg = "if isInteractive w \<or> \<not> force opts then mayExist else []"
  from probe_found [OF assms(3,4,5), of opts fs s] obtain s1
    where pr: "probe w opts (localFiles p) (remoteFiles p) (serverList p) s = (Val ?msg, s1)"
    by (auto simp: assms(1,2))
  have cmp: "compareFiles (localFiles p) (remoteFiles p) = (localFiles p, [], [])"
    by (simp add: assms(1) compareFiles_no_remote)
  let ?s2 = "if ?msg \<noteq> [] then s1\<lparr>trail := trail s1 @ [Say ?msg]\<rparr> else s1"
  note rec = reconcile_after_probe [OF pr cmp]
  have may: "mayExist \<noteq> []" by (simp add: mayExist_def)
  show ?thesis
  proof (intro conjI impI)
    assume nf: "\<not> force opts" and quit: "nonInteractive opts \<or> confirmPrompt w = Inr False"
    have new: "nothing_new opts (remoteFiles p) ?msg (localFiles p) []"
      using nf may by (simp add: nothing_new_def assms(1))
    from decide_stop [OF new nf quit, of "[]" ?s2] obtain s' l
      where d: "decide w opts (remoteFiles p) ?msg (localFiles p) [] [] ?s2 = (Stop (Exited 0), s')"
        and l: "trail s' = trail ?s2 @ l"
      by blast
    have "Say mayExist \<in> set (trail ?s2)" using nf may by simp
    with l have "Say mayExist \<in> set (trail s')" by simp
    with d show "\<exists>s'. reconcile w opts p s = (Stop (Exited 0), s') \<and> Say mayExist \<in> set (trail s')"
      by (simp add: rec bind_def)
  next
    assume go: "force opts \<or> \<not> nonInteractive opts \<and> confirmPrompt w = Inr True"
    show "\<exists>s'. reconcile w opts p s = (Val (localFiles p, []), s')"
    proof (cases "nothing_new opts (remoteFiles p) ?msg (localFiles p) []")
      case False
      from decide_pass [OF False, of w "[]" ?s2] show ?thesis
        by (simp add: rec bind_def ret_def)
    next
      case True
      then have "\<not> force opts" by (simp add: nothing_new_def assms(2))
      with go have "\<not> nonInteractive opts" "confirmPrompt w = Inr True" by auto
      from decide_confirmed [OF True this, of "[]" ?s2] show ?thesis
        by (auto simp: rec bind_def ret_def)
    qed
  qed
qed

lemma loadFiles_loads:
  "\<exists>loaded s' l. loadFiles w folder fs s = (Val loaded, s') \<and> trail s' = trail s @ l \<and>
      loads l = fs"
proof (induction fs arbitrary: s)
  case Nil
  then show ?case by (simp add: ret_def)
next
  case (Cons f fs)
  show ?case
  proof (cases "loadFileData w folder f")
    case (Inl e)
    let ?s1 = "s\<lparr>trail := trail s @ [Load f, Say (''Failed to load file '' @ path f @ '': '' @ e)],
                  collected := addFileError (path f) (JStr e) (collected s)\<rparr>"
    from Cons.IH [of ?s1] obtain loaded s' l
      where "loadFiles w folder fs ?s1 = (Val loaded, s')" "trail s' = trail ?s1 @ l" "loads l = fs"
      by blast
    then show ?thesis
      using Inl
      by (intro exI [of _ loaded] exI [of _ s']
          exI [of _ "[Load f, Say (''Failed to load file '' @ path f @ '': '' @ e)] @ l"])
         simp
  next
    case (Inr fd)
    let ?s1 = "s\<lparr>trail := trail s @ [Load f]\<rparr>"
    from Cons.IH [of ?s1] obtain loaded s' l
      where "loadFiles w folder fs ?s1 = (Val loaded, s')" "trail s' = trail ?s1 @ l" "loads l = fs"
      by blast
    then show ?thesis
      using Inr
      by (intro exI [of _ "fd # loaded"] exI [of _ s'] exI [of _ "[Load f] @ l"])
         (simp add: bind_def ret_def emit_def)
  qed
qed

lemma loadFiles_none:
  "\<forall>f\<in>set fs. \<exists>e. loadFileData w folder f = Inl e \<Longrightarrow>
   \<exists>s'. loadFiles w folder fs s = (Val [], s')"
proof (induction fs arbitrary: s)
  case Nil
  then show ?case by (simp add: ret_def)
next
  case (Cons f fs)
  then obtain e where e: "loadFileData w folder f = Inl e" by auto
  from Cons have "\<forall>f\<in>set fs. \<exists>e. loadFileData w folder f = Inl e" by simp
  from Cons.IH [OF this] show ?case using e by simp
qed

lemma uploadFiles_loads:
  assumes "uploadFiles w opts folder sl rl t s = (r, s')"
  shows "\<exists>l. trail s' = trail s @ l \<and> loads l = t"
proof (cases "t = []")
  case True
  with assms show ?thesis by (simp add: uploadFiles_def ret_def)
next
  case False
  from loadFiles_loads [of w folder t s] obtain loaded s1 l
    where lf: "loadFiles w folder t s = (Val loaded, s1)" "trail s1 = trail s @ l" "loads l = t"
    by blast
  show ?thesis
  proof (cases "loaded = []")
    case True
    with assms False lf have "trail s' = trail s @ l @ [Say ''No files could be loaded for upload.'']"
      by (auto simp: uploadFiles_def bind_def exit_def emit_def)
    with lf(3) show ?thesis by (simp add: loads_append)
  next
    case nonempty: False
    with assms False lf
    have "trail s' = trail s @ l @ [Upload loaded sl rl (concurrency opts)]"
      by (auto simp: uploadFiles_def bind_def summarize_def collect_def emit_def attempt_def
          split: sum.splits)
    with lf(3) show ?thesis by (simp add: loads_append)
  qed
qed

lemma uploadFiles_none_loaded:
  assumes "t \<noteq> []" and "\<forall>f\<in>set t. \<exists>e. loadFileData w folder f = Inl e"
  shows "\<exists>s'. uploadFiles w opts folder sl rl t s = (Stop (Exited 1), s')"
proof -
  from loadFiles_none [OF assms(2), of s] obtain s1
    where "loadFiles w folder t s = (Val [], s1)" by blast
  then show ?thesis using assms(1) by (simp add: uploadFiles_def bind_def exit_def emit_def)
qed

lemma adds_signEvent: "P (Sign t) \<Longrightarrow> T \<Longrightarrow> adds P E T (signEvent sg t)"
  unfolding signEvent_def by (intro adds_bind adds_emit adds_attempt)

lemma adds_deleteFromServer: "adds unloaded (\<lambda>h. h = Hung) T (deleteFromServer w sg f h server)"
  unfolding deleteFromServer_def
  by (intro adds_catch adds_bind adds_seconds adds_signEvent adds_case_option adds_attempt
      adds_emit adds_ret) simp_all

lemma adds_deleteFromServers: "adds unloaded (\<lambda>h. h = Hung) T (deleteFromServers w sg f h sl)"
proof (induction sl)
  case Nil
  show ?case unfolding deleteFromServers.simps by (rule adds_ret)
next
  case (Cons server sl)
  show ?case
    unfolding deleteFromServers.simps
    by (intro adds_bind adds_deleteFromServer Cons.IH)
qed

lemma adds_purgeFile: "adds unloaded (\<lambda>h. h = Hung) T (purgeFile w sg rl sl f)"
  unfolding purgeFile_def
  by (intro adds_catch adds_if adds_bind adds_seconds adds_signEvent adds_publish
      adds_deleteFromServers adds_ret) simp_all

lemma adds_purgeLoop: "adds unloaded (\<lambda>h. h = Hung) T (purgeLoop w sg rl sl fs counts)"
proof (induction fs arbitrary: counts)
  case Nil
  show ?case unfolding purgeLoop.simps by (rule adds_ret)
next
  case (Cons f fs)
  show ?case
    unfolding purgeLoop.simps
    by (intro adds_bind adds_purgeFile Cons.IH)
qed

lemma adds_publishExtra: "adds unloaded (\<lambda>h. h = Hung) T (publishExtra w sg rl what k ts c)"
  unfolding publishExtra_def
  by (intro adds_catch adds_bind adds_seconds adds_signEvent adds_publish adds_emit adds_ret)
     simp_all

lemma adds_conclude: "adds unloaded (\<lambda>h. h = Hung) False (conclude w opts p toDelete)"
  unfolding conclude_def purgeFiles_def publishExtras_def
  by (intro adds_bind adds_if adds_purgeLoop adds_publishExtra adds_emit adds_ret) simp_all

lemma uploadCommand_finish:
  "uploadCommand w opts folder =
     finish (bind (transfer w opts folder) (\<lambda>(p, toDelete). conclude w opts p toDelete)
               start_state)"
  by (simp add: uploadCommand_def finish_def)

lemma stops_in_prepare:
  "prepare w opts folder start_state = (Stop h, s1) \<Longrightarrow> uploadCommand w opts folder = (h, s1)"
  by (simp add: uploadCommand_finish finish_def transfer_def bind_def)

lemma stops_in_reconcile:
  "prepare w opts folder start_state = (Val p, s1) \<Longrightarrow>
   reconcile w opts p s1 = (Stop h, s2) \<Longrightarrow> uploadCommand w opts folder = (h, s2)"
  by (simp add: uploadCommand_finish finish_def transfer_def bind_def)

lemma stops_in_upload:
  "prepare w opts folder start_state = (Val p, s1) \<Longrightarrow>
   reconcile w opts p s1 = (Val (t, d), s2) \<Longrightarrow>
   uploadFiles w opts folder (serverList p) (relayList p) t s2 = (Stop h, s3) \<Longrightarrow>
   uploadCommand w opts folder = (h, s3)"
  by (simp add: uploadCommand_finish finish_def transfer_def bind_def)

lemma quiet_so_far:
  assumes "prepare w opts folder start_state = (Val p, s1)"
    and "reconcile w opts p s1 = (r, s2)"
  shows "list_all quiet (trail s2)"
proof -
  from addsD [OF adds_prepare assms(1)] have "list_all quiet (trail s1)"
    by (auto simp: start_state_def)
  with addsD [OF adds_reconcile assms(2)] show ?thesis by auto
qed

lemma no_project:
  assumes "\<not> nonInteractive opts" and "setupProject w = Inr ctx" and "projectData ctx = None"
  shows "fst (uploadCommand w opts folder) = Exited 1"
proof -
  have "\<exists>s1. prepare w opts folder start_state = (Stop (Exited 1), s1)"
    using assms by (simp add: prepare_def loadProject_def requireProject_def exit_def)
  then show ?thesis by (auto dest: stops_in_prepare)
qed

lemma no_signer:
  assumes "loadProject w opts start_state = (Val ctx, s0)" and "projectData ctx = Some pd"
    and "\<not> truthy_str (privatekey opts)" and "\<not> truthy_str (nbunksec opts)"
    and "\<not> truthy_str (bunker opts)" and "\<not> truthy_str (privateKey ctx)"
    and "\<not> truthy_str (bunkerPubkey pd)"
  shows "fst (uploadCommand w opts folder) = Exited 1"
proof -
  have "\<exists>s1. chooseSigner w opts ctx pd s0 = (Stop (Exited 1), s1)"
    using assms(3-7) by (simp add: chooseSigner_def exit_def)
  then have "\<exists>s1. prepare w opts folder start_state = (Stop (Exited 1), s1)"
    using assms(1,2) by (auto simp: prepare_def requireProject_def bind_def ret_def)
  then show ?thesis by (auto dest: stops_in_prepare)
qed

lemma nothing_to_do:
  assumes "prepare w opts folder start_state = (Val p, s1)"
    and "compareFiles (localFiles p) (remoteFiles p) = ([], existing, [])"
    and "\<not> force opts" and "nonInteractive opts \<or> confirmPrompt w = Inr False"
  shows "fst (uploadCommand w opts folder) = Exited 0 \<and>
         list_all quiet (trail (snd (uploadCommand w opts folder)))"
proof -
  from reconcile_nothing_to_do [OF assms(2-4), of s1] obtain s2
    where r: "reconcile w opts p s1 = (Stop (Exited 0), s2)" by blast
  from stops_in_reconcile [OF assms(1) r] quiet_so_far [OF assms(1) r]
  show ?thesis by simp
qed

lemma past_the_uploads:
  assumes "transfer w opts folder start_state = (Val pd, s)"
  shows "fst (uploadCommand w opts folder) = Returned \<or> fst (uploadCommand w opts folder) = Hung"
proof -
  obtain p d where pd: "pd = (p, d)" by (cases pd)
  obtain r s' where c: "conclude w opts p d s = (r, s')" by (cases "conclude w opts p d s")
  from addsD [OF adds_conclude c] have "(\<exists>u. r = Val u) \<or> r = Stop Hung"
    by (cases r) auto
  then show ?thesis
    using assms pd c by (auto simp: uploadCommand_finish finish_def bind_def)
qed

lemma nothing_loaded:
  assumes "prepare w opts folder start_state = (Val p, s1)"
    and "reconcile w opts p s1 = (Val (t, d), s2)"
    and "t \<noteq> []" and "\<forall>f\<in>set t. \<exists>e. loadFileData w folder f = Inl e"
  shows "fst (uploadCommand w opts folder) = Exited 1"
proof -
  from uploadFiles_none_loaded [OF assms(3,4), of opts "serverList p" "relayList p" s2]
  obtain s3 where "uploadFiles w opts folder (serverList p) (relayList p) t s2 =
      (Stop (Exited 1), s3)" by blast
  from stops_in_upload [OF assms(1,2) this] show ?thesis by simp
qed

section \<open>Purge: the claims\<close>

lemmas sample_defs =
  sample_world_def sample_signer_def announcement_def local_file_def remote_file_def
  sample_project_def failed_upload_def

lemma bind_catch:
  "bind (catch m h) k s =
     (case catch m h s of
        (Val x, s') \<Rightarrow> k x s'
      | (Throw e, s') \<Rightarrow> (Throw e, s')
      | (Stop e, s') \<Rightarrow> (Stop e, s'))"
  by (simp add: bind_def)

lemma bind_publish:
  "bind (publish w evt rl) k s =
     (case publish w evt rl s of
        (Val x, s') \<Rightarrow> k x s'
      | (Throw e, s') \<Rightarrow> (Throw e, s')
      | (Stop e, s') \<Rightarrow> (Stop e, s'))"
  by (simp add: bind_def)

lemma bind_deleteFromServer:
  "bind (deleteFromServer w sg f h server) k s =
     k () (s\<lparr>trail := trail s @ authSegment w sg f h server (ticks s), ticks := ticks s + 2\<rparr>)"
  by (simp add: bind_def deleteFromServer_run)

lemma publish_nowhere:
  "traffic w evt = [] \<Longrightarrow>
   publish w evt [] s = (Val False, s\<lparr>trail := trail s @ [Publish evt []]\<rparr>)"
  by (simp add: publish_def publishToRelays_def start_def)

lemma dec_samples:
  "dec 126 = ''126''" "dec 128 = ''128''" "dec 130 = ''130''" "dec 132 = ''132''"
  by (simp_all add: dec.simps [of 126] dec.simps [of 128] dec.simps [of 130]
      dec.simps [of 132] dec.simps [of 12] dec.simps [of 13] dec.simps [of 1]
      dec.simps [of "Suc 0"] digit_def)

lemmas purge_eval =
  purgeFile_def bind_deleteFromServer authSegment_def bind_catch bind_publish publish_nowhere
  signEvent_def deletionEventTemplate_def deleteAuthTemplate_def serverUrl_def truthy_str_def
  prog_defs start_state_def Let_def suffix_to_prefix dec_samples




text \<open>
  Claim C8. Whatever the purge loop adds to the trail, every DELETE request in it goes to
  the URL of one of the servers (with a slash at its end) followed by the hash of an entry
  of \<^verbatim>\<open>toDelete\<close>, right after a kind 24242 template with the tags \<^verbatim>\<open>t delete\<close>,
  \<^verbatim>\<open>x hash\<close> and an expiration 120 seconds after a reading of the clock was signed; its
  header is \<^verbatim>\<open>Nostr\<close> and the base64 of the JSON of that signed record (\<open>authorizes\<close>).
\<close>

theorem purge_delete_authorized:
  "purgeLoop w sg rl sl fs counts s = (r, s') \<Longrightarrow>
   \<exists>l. trail s' = trail s @ l \<and> each_after (authorized w sg sl fs) (trail s) l"
  by (rule purgeLoop_each [where G = "authorized w sg sl"])
     (auto intro: purgeFile_authorized elim: authorized_mono [rotated 2])

theorem purge_delete_authorized_witness:
  "\<exists>l. trail (snd (purgeLoop sample_world sample_signer [] [''https://s'']
          [remote_file ''/b'' ''hb''] (0, 0) start_state)) = trail start_state @ l \<and>
       each_after (authorized sample_world sample_signer [''https://s'']
          [remote_file ''/b'' ''hb'']) (trail start_state) l \<and>
       l ! 2 = Sign \<lparr>kind = 24242, created_at = 7, content = ''nsyte: delete file: hb | /b'',
          tags = [[''t'', ''delete''], [''x'', ''hb''], [''expiration'', ''128'']]\<rparr> \<and>
       l ! 3 = Delete ''https://s/hb'' ''Nostr id of nsyte: delete file: hb | /b''"
proof -
  let ?run = "purgeLoop sample_world sample_signer [] [''https://s'']
          [remote_file ''/b'' ''hb''] (0, 0) start_state"
  from purge_delete_authorized [OF surjective_pairing [of ?run]]
  obtain l where l: "trail (snd ?run) = trail start_state @ l"
    "each_after (authorized sample_world sample_signer [''https://s'']
          [remote_file ''/b'' ''hb'']) (trail start_state) l"
    by blast
  have "trail (snd ?run) ! 2 = Sign \<lparr>kind = 24242, created_at = 7,
          content = ''nsyte: delete file: hb | /b'',
          tags = [[''t'', ''delete''], [''x'', ''hb''], [''expiration'', ''128'']]\<rparr> \<and>
      trail (snd ?run) ! 3 = Delete ''https://s/hb'' ''Nostr id of nsyte: delete file: hb | /b''"
    by (simp add: purge_eval sample_defs)
  with l show ?thesis by (auto simp: start_state_def)
qed

text \<open>
  Claim C10. An entry of \<^verbatim>\<open>toDelete\<close> without its source record or without its hash is
  counted as failed and leaves the run as it was (nothing is signed, published or
  deleted); the loop goes on with the entries that follow.
\<close>

theorem purge_skips_incomplete_entry:
  "event f = None \<or> \<not> truthy_str (sha256 f) \<Longrightarrow>
   purgeFile w sg rl sl f s = (Val False, s) \<and>
   purgeLoop w sg rl sl (f # fs) (completed, failed) s =
     purgeLoop w sg rl sl fs (completed, failed + 1) s"
  using purgeFile_lacks [of f w sg rl sl s] purgeLoop_skip [of f w sg rl sl fs completed failed s]
  by (simp add: lacks_def)

theorem purge_skips_incomplete_entry_witness:
  "purgeLoop sample_world sample_signer [] [''https://s''] [local_file ''/c'' ''hc''] (0, 0)
     start_state = (Val (0, 1), start_state)"
  using purge_skips_incomplete_entry [of "local_file ''/c'' ''hc''" sample_world sample_signer
      "[]" "[''https://s'']" start_state "[]" 0 0]
  by (simp add: local_file_def ret_def)

section \<open>The command: the claims\<close>

lemmas command_eval =
  uploadCommand_def transfer_def prepare_def loadProject_def requireProject_def
  chooseSigner_def copyFallback_def scanLocal_def fetchRemote_def reconcile_def probe_def
  compareFiles_def matches_def decide_def nothingToDo_def uploadFiles_def summarize_def
  conclude_def purgeFiles_def publishExtras_def nsiteUrl_def or_else_def truthy_str_def
  serverUrl_def suffix_to_prefix mayExist_def start_state_def prog_defs bind_def
  addFileError_def

lemmas more_samples =
  sample_options_def interactive_options_def forced_options_def keyless_options_def
  ambiguous_world_def published_world_def unreadable_world_def unconfigured_world_def
  defaulted_world_def defaultProject_def sample_plan_def

lemma sample_run:
  "uploadCommand sample_world sample_options ''site'' =
   (Returned,
    \<lparr>trail =
       [Scan ''site'', Fetch [] ''pk'', Head ''https://s/ha'', Load (local_file ''/a'' ''ha''),
        Upload [local_file ''/a'' ''ha''] [''https://s''] [] 4,
        Say ''The website is now available on any nsite gateway, e.g.: https://pk.nsite.lol''],
     collected = [(FileError, ''/a'', JStr ''Failed to upload to any server'')],
     ticks = 0\<rparr>)"
  by (simp add: command_eval sample_defs sample_options_def)

lemma loads_of_run:
  assumes "prepare w opts folder start_state = (Val p, s1)"
    and "reconcile w opts p s1 = (Val (t, d), s2)"
  shows "loads (trail (snd (uploadCommand w opts folder))) = t"
proof -
  have q: "loads (trail s2) = []" by (rule loads_quiet [OF quiet_so_far [OF assms]])
  obtain r3 s3 where up: "uploadFiles w opts folder (serverList p) (relayList p) t s2 = (r3, s3)"
    by (cases "uploadFiles w opts folder (serverList p) (relayList p) t s2")
  from uploadFiles_loads [OF up] obtain l3 where l3: "trail s3 = trail s2 @ l3" "loads l3 = t"
    by blast
  have t3: "loads (trail s3) = t" using q l3 by (simp add: loads_append)
  show ?thesis
  proof (cases r3)
    case (Val u)
    obtain r4 s4 where c: "conclude w opts p d s3 = (r4, s4)" by (cases "conclude w opts p d s3")
    from addsD [OF adds_conclude c] obtain l4
      where l4: "trail s4 = trail s3 @ l4" "list_all unloaded l4"
        and r4: "(\<exists>u. r4 = Val u) \<or> r4 = Stop Hung"
      by (cases r4) auto
    have "snd (uploadCommand w opts folder) = s4"
      using assms up Val c r4
      by (auto simp: uploadCommand_finish finish_def transfer_def bind_def ret_def)
    with l4 t3 show ?thesis by (simp add: loads_append loads_unloaded)
  next
    case (Throw e)
    with assms up
    have "snd (uploadCommand w opts folder) =
        s3\<lparr>trail := trail s3 @ [Say (''Failed to upload: '' @ e)]\<rparr>"
      by (simp add: uploadCommand_finish finish_def transfer_def bind_def)
    with t3 show ?thesis by (simp add: loads_append)
  next
    case (Stop h)
    with assms up have "snd (uploadCommand w opts folder) = s3"
      by (simp add: uploadCommand_finish finish_def transfer_def bind_def)
    with t3 show ?thesis by simp
  qed
qed

text \<open>
  Claim C2, as stated, has the command exit without any upload whenever \<^verbatim>\<open>--force\<close> is
  absent. Here no remote record is found, the HEAD request for the first local file is
  answered 2xx, \<^verbatim>\<open>--force\<close> is absent, the command is interactive and the user confirms
  the prompt: the file is uploaded.
\<close>

theorem confirmed_prompt_uploads:
  "listRemoteFiles ambiguous_world [] ''pk'' = Inr [] \<and>
   fetchHEAD ambiguous_world ''https://s/ha'' = Inr True \<and>
   \<not> force interactive_options \<and>
   fst (uploadCommand ambiguous_world interactive_options ''site'') = Returned \<and>
   Upload [local_file ''/a'' ''ha''] [''https://s''] [] 4
     \<in> set (trail (snd (uploadCommand ambiguous_world interactive_options ''site'')))"
  by (simp add: command_eval sample_defs more_samples)

text \<open>
  Claim C2, amended. Let the command come to the comparison with no remote record, and
  let some server answer 2xx to the HEAD request for the hash of the first local file.
  Without \<^verbatim>\<open>--force\<close>, in non-interactive mode or when the user declines the prompt, the
  command says that the files may exist already and exits with code 0, and nothing was
  loaded, uploaded, signed, published or deleted. With \<^verbatim>\<open>--force\<close>, or when the user
  confirms the prompt, the files whose content is loaded for upload are all the local files.
\<close>

theorem ambiguous_state:
  assumes "prepare w opts folder start_state = (Val p, s1)"
    and "remoteFiles p = []" and "localFiles p = f # fs" and "sha256 f = Some h"
    and "h \<noteq> []"
    and "\<exists>server\<in>set (serverList p). fetchHEAD w (serverUrl server @ h) = Inr True"
  shows "(\<not> force opts \<longrightarrow> nonInteractive opts \<or> confirmPrompt w = Inr False \<longrightarrow>
            fst (uploadCommand w opts folder) = Exited 0 \<and>
            list_all quiet (trail (snd (uploadCommand w opts folder))) \<and>
            Say mayExist \<in> set (trail (snd (uploadCommand w opts folder)))) \<and>
         (force opts \<or> \<not> nonInteractive opts \<and> confirmPrompt w = Inr True \<longrightarrow>
            loads (trail (snd (uploadCommand w opts folder))) = localFiles p)"
proof -
  have stop: "fst (uploadCommand w opts folder) = Exited 0 \<and>
        list_all quiet (trail (snd (uploadCommand w opts folder))) \<and>
        Say mayExist \<in> set (trail (snd (uploadCommand w opts folder)))"
    if "\<not> force opts" and "nonInteractive opts \<or> confirmPrompt w = Inr False"
  proof -
    from that reconcile_ambiguous [OF assms(2-6), of opts s1] obtain s2
      where r: "reconcile w opts p s1 = (Stop (Exited 0), s2)"
        and m: "Say mayExist \<in> set (trail s2)"
      by blast
    from stops_in_reconcile [OF assms(1) r] quiet_so_far [OF assms(1) r] m
    show ?thesis by simp
  qed
  have go: "loads (trail (snd (uploadCommand w opts folder))) = localFiles p"
    if "force opts \<or> \<not> nonInteractive opts \<and> confirmPrompt w = Inr True"
  proof -
    from that reconcile_ambiguous [OF assms(2-6), of opts s1] obtain s2
      where "reconcile w opts p s1 = (Val (localFiles p, []), s2)" by blast
    from loads_of_run [OF assms(1) this] show ?thesis .
  qed
  from stop go show ?thesis by blast
qed

lemma sample_prepare:
  "prepare ambiguous_world sample_options ''site'' start_state =
     (Val sample_plan, \<lparr>trail = [Scan ''site'', Fetch [] ''pk''], collected = [], ticks = 0\<rparr>)"
  "prepare ambiguous_world forced_options ''site'' start_state =
     (Val sample_plan, \<lparr>trail = [Scan ''site'', Fetch [] ''pk''], collected = [], ticks = 0\<rparr>)"
  by (simp_all add: command_eval sample_defs more_samples)

theorem ambiguous_state_witness:
  "fst (uploadCommand ambiguous_world sample_options ''site'') = Exited 0 \<and>
   list_all quiet (trail (snd (uploadCommand ambiguous_world sample_options ''site''))) \<and>
   Say mayExist \<in> set (trail (snd (uploadCommand ambiguous_world sample_options ''site''))) \<and>
   loads (trail (snd (uploadCommand ambiguous_world forced_options ''site''))) =
     [local_file ''/a'' ''ha'']"
proof -
  have facts: "remoteFiles sample_plan = []"
    "localFiles sample_plan = local_file ''/a'' ''ha'' # []"
    "sha256 (local_file ''/a'' ''ha'') = Some ''ha''" "''ha'' \<noteq> []"
    "\<exists>server\<in>set (serverList sample_plan).
       fetchHEAD ambiguous_world (serverUrl server @ ''ha'') = Inr True"
    by (simp_all add: sample_plan_def local_file_def ambiguous_world_def sample_world_def)
  have o: "\<not> force sample_options" "nonInteractive sample_options" "force forced_options"
    by (simp_all add: sample_options_def forced_options_def)
  from ambiguous_state [OF sample_prepare(1) facts] o
  have 1: "fst (uploadCommand ambiguous_world sample_options ''site'') = Exited 0 \<and>
      list_all quiet (trail (snd (uploadCommand ambiguous_world sample_options ''site''))) \<and>
      Say mayExist \<in> set (trail (snd (uploadCommand ambiguous_world sample_options ''site'')))"
    by blast
  from ambiguous_state [OF sample_prepare(2) facts] o
  have 2: "loads (trail (snd (uploadCommand ambiguous_world forced_options ''site''))) =
      localFiles sample_plan"
    by blast
  from 1 2 show ?thesis by (simp add: sample_plan_def)
qed



lemma published_prepare:
  "prepare published_world sample_options ''site'' start_state =
     (Val (sample_plan\<lparr>remoteFiles := [remote_file ''/a'' ''ha'']\<rparr>),
      \<lparr>trail = [Scan ''site'', Fetch [] ''pk''], collected = [], ticks = 0\<rparr>)"
  by (simp add: command_eval sample_defs more_samples)

lemma published_compare:
  "compareFiles (localFiles (sample_plan\<lparr>remoteFiles := [remote_file ''/a'' ''ha'']\<rparr>))
     (remoteFiles (sample_plan\<lparr>remoteFiles := [remote_file ''/a'' ''ha'']\<rparr>)) =
     ([], [local_file ''/a'' ''ha''], [])"
  by (simp add: compareFiles_def matches_def sample_defs more_samples)


text \<open>
  Claim C7, as stated, has the process exit with 1 when all uploads failed and when no
  project configuration is found. Here the only upload fails: the command goes on to its
  end and returns, and the exit code is 0. And in non-interactive mode with no project
  file the command takes an empty default configuration, goes on to the uploads, and the
  exit code is 0 as well.
\<close>

theorem failed_uploads_exit_0:
  "processUploads sample_world [local_file ''/a'' ''ha''] ''site'' [''https://s''] [] 4 =
     Inr [failed_upload (local_file ''/a'' ''ha'')] \<and>
   \<not> success (failed_upload (local_file ''/a'' ''ha'')) \<and>
   Upload [local_file ''/a'' ''ha''] [''https://s''] [] 4
     \<in> set (trail (snd (uploadCommand sample_world sample_options ''site''))) \<and>
   exit_code (fst (uploadCommand sample_world sample_options ''site'')) = Some 0 \<and>
   nonInteractive sample_options \<and> readProjectFile defaulted_world = Inr None \<and>
   Upload [local_file ''/a'' ''ha''] [] [] 4
     \<in> set (trail (snd (uploadCommand defaulted_world sample_options ''site''))) \<and>
   exit_code (fst (uploadCommand defaulted_world sample_options ''site'')) = Some 0"
  by (simp add: command_eval sample_defs more_samples exit_code_def)

lemma default_project:
  assumes "nonInteractive opts" "readProjectFile w = Inr None"
  shows "bind (loadProject w opts) requireProject s = (Val defaultProject, s)"
  using assms by (simp add: loadProject_def requireProject_def prog_defs bind_def)

text \<open>
  Claim C7, amended. The exit code is 1 when the interactive setup gives no project
  configuration (in non-interactive mode a missing project file is replaced by the empty
  default configuration and the command goes on), when neither the options nor the
  project give a private key or a bunker, and when none of the files to transfer could be
  loaded. It is 0 when nothing is to do (no \<^verbatim>\<open>--force\<close>; non-interactive, or the prompt
  declined), and whenever the command gets past the uploads, unless it then waits for a
  relay for ever.
\<close>

theorem exit_codes:
  "(\<not> nonInteractive opts \<and> setupProject w = Inr ctx \<and> projectData ctx = None \<longrightarrow>
      exit_code (fst (uploadCommand w opts folder)) = Some 1) \<and>
   (nonInteractive opts \<and> readProjectFile w = Inr None \<longrightarrow>
      bind (loadProject w opts) requireProject s = (Val defaultProject, s)) \<and>
   (loadProject w opts start_state = (Val ctx', s0) \<and> projectData ctx' = Some pd \<and>
    \<not> truthy_str (privatekey opts) \<and> \<not> truthy_str (nbunksec opts) \<and>
    \<not> truthy_str (bunker opts) \<and> \<not> truthy_str (privateKey ctx') \<and>
    \<not> truthy_str (bunkerPubkey pd) \<longrightarrow>
      exit_code (fst (uploadCommand w opts folder)) = Some 1) \<and>
   (prepare w opts folder start_state = (Val p, s1) \<and>
    reconcile w opts p s1 = (Val (t, d), s2) \<and> t \<noteq> [] \<and>
    (\<forall>f\<in>set t. \<exists>e. loadFileData w folder f = Inl e) \<longrightarrow>
      exit_code (fst (uploadCommand w opts folder)) = Some 1) \<and>
   (prepare w opts folder start_state = (Val p', s1') \<and>
    compareFiles (localFiles p') (remoteFiles p') = ([], existing, []) \<and>
    \<not> force opts \<and> (nonInteractive opts \<or> confirmPrompt w = Inr False) \<longrightarrow>
      exit_code (fst (uploadCommand w opts folder)) = Some 0) \<and>
   (transfer w opts folder start_state = (Val reached, s3) \<longrightarrow>
      exit_code (fst (uploadCommand w opts folder)) = Some 0 \<or>
      fst (uploadCommand w opts folder) = Hung)"
proof (intro conjI impI; (elim conjE)?)
  assume "\<not> nonInteractive opts" "setupProject w = Inr ctx" "projectData ctx = None"
  from no_project [OF this] show "exit_code (fst (uploadCommand w opts folder)) = Some 1"
    by (simp add: exit_code_def)
next
  assume "nonInteractive opts" "readProjectFile w = Inr None"
  then show "bind (loadProject w opts) requireProject s = (Val defaultProject, s)"
    by (rule default_project)
next
  assume "loadProject w opts start_state = (Val ctx', s0)" "projectData ctx' = Some pd"
    "\<not> truthy_str (privatekey opts)" "\<not> truthy_str (nbunksec opts)"
    "\<not> truthy_str (bunker opts)" "\<not> truthy_str (privateKey ctx')"
    "\<not> truthy_str (bunkerPubkey pd)"
  from no_signer [OF this] show "exit_code (fst (uploadCommand w opts folder)) = Some 1"
    by (simp add: exit_code_def)
next
  assume "prepare w opts folder start_state = (Val p, s1)"
    "reconcile w opts p s1 = (Val (t, d), s2)" "t \<noteq> []"
    "\<forall>f\<in>set t. \<exists>e. loadFileData w folder f = Inl e"
  from nothing_loaded [OF this] show "exit_code (fst (uploadCommand w opts folder)) = Some 1"
    by (simp add: exit_code_def)
next
  assume "prepare w opts folder start_state = (Val p', s1')"
    "compareFiles (localFiles p') (remoteFiles p') = ([], existing, [])"
    "\<not> force opts" "nonInteractive opts \<or> confirmPrompt w = Inr False"
  then show "exit_code (fst (uploadCommand w opts folder)) = Some 0"
    using nothing_to_do [of w opts folder p' s1' existing] by (simp add: exit_code_def)
next
  assume "transfer w opts folder start_state = (Val reached, s3)"
  from past_the_uploads [OF this]
  show "exit_code (fst (uploadCommand w opts folder)) = Some 0 \<or>
        fst (uploadCommand w opts folder) = Hung"
    by (auto simp: exit_code_def)
qed

lemma sample_runs:
  "loadProject sample_world keyless_options start_state =
     (Val \<lparr>projectData = Some sample_project, privateKey = None\<rparr>, start_state)"
  "prepare unreadable_world sample_options ''site'' start_state =
     (Val sample_plan, \<lparr>trail = [Scan ''site'', Fetch [] ''pk''], collected = [], ticks = 0\<rparr>)"
  "reconcile unreadable_world sample_options sample_plan
     \<lparr>trail = [Scan ''site'', Fetch [] ''pk''], collected = [], ticks = 0\<rparr> =
     (Val ([local_file ''/a'' ''ha''], []),
      \<lparr>trail = [Scan ''site'', Fetch [] ''pk'', Head ''https://s/ha''], collected = [],
       ticks = 0\<rparr>)"
  "fst (transfer sample_world sample_options ''site'' start_state) = Val (sample_plan, [])"
  "fst (uploadCommand sample_world sample_options ''site'') \<noteq> Hung"
  by (simp_all add: command_eval sample_defs more_samples)

theorem exit_codes_witness:
  "exit_code (fst (uploadCommand unconfigured_world interactive_options ''site'')) = Some 1 \<and>
   exit_code (fst (uploadCommand sample_world keyless_options ''site'')) = Some 1 \<and>
   exit_code (fst (uploadCommand unreadable_world sample_options ''site'')) = Some 1 \<and>
   exit_code (fst (uploadCommand published_world sample_options ''site'')) = Some 0 \<and>
   exit_code (fst (uploadCommand sample_world sample_options ''site'')) = Some 0 \<and>
   bind (loadProject defaulted_world sample_options) requireProject start_state =
     (Val defaultProject, start_state)"
proof -
  have "nonInteractive sample_options \<and> readProjectFile defaulted_world = Inr None"
    by (simp add: more_samples sample_defs)
  with exit_codes [where w = defaulted_world and opts = sample_options and s = start_state]
  have 0: "bind (loadProject defaulted_world sample_options) requireProject start_state =
      (Val defaultProject, start_state)"
    by blast
  have "\<not> nonInteractive interactive_options \<and>
      setupProject unconfigured_world = Inr \<lparr>projectData = None, privateKey = None\<rparr> \<and>
      projectData \<lparr>projectData = None, privateKey = None\<rparr> = None"
    by (simp add: more_samples sample_defs)
  with exit_codes [where w = unconfigured_world and opts = interactive_options
      and folder = "''site''" and ctx = "\<lparr>projectData = None, privateKey = None\<rparr>"]
  have 1: "exit_code (fst (uploadCommand unconfigured_world interactive_options ''site'')) = Some 1"
    by blast
  have "loadProject sample_world keyless_options start_state =
        (Val \<lparr>projectData = Some sample_project, privateKey = None\<rparr>, start_state) \<and>
      projectData \<lparr>projectData = Some sample_project, privateKey = None\<rparr> = Some sample_project \<and>
      \<not> truthy_str (privatekey keyless_options) \<and> \<not> truthy_str (nbunksec keyless_options) \<and>
      \<not> truthy_str (bunker keyless_options) \<and>
      \<not> truthy_str (privateKey \<lparr>projectData = Some sample_project, privateKey = None\<rparr>) \<and>
      \<not> truthy_str (bunkerPubkey sample_project)"
    by (simp add: sample_runs(1)) (simp add: more_samples sample_defs truthy_str_def)
  with exit_codes [where w = sample_world and opts = keyless_options and folder = "''site''"
      and ctx' = "\<lparr>projectData = Some sample_project, privateKey = None\<rparr>"
      and ?s0.0 = start_state and pd = sample_project]
  have 2: "exit_code (fst (uploadCommand sample_world keyless_options ''site'')) = Some 1"
    by blast
  have "prepare unreadable_world sample_options ''site'' start_state =
        (Val sample_plan, \<lparr>trail = [Scan ''site'', Fetch [] ''pk''], collected = [], ticks = 0\<rparr>) \<and>
      reconcile unreadable_world sample_options sample_plan
        \<lparr>trail = [Scan ''site'', Fetch [] ''pk''], collected = [], ticks = 0\<rparr> =
        (Val ([local_file ''/a'' ''ha''], []),
         \<lparr>trail = [Scan ''site'', Fetch [] ''pk'', Head ''https://s/ha''], collected = [],
          ticks = 0\<rparr>) \<and>
      [local_file ''/a'' ''ha''] \<noteq> [] \<and>
      (\<forall>f\<in>set [local_file ''/a'' ''ha''].
          \<exists>e. loadFileData unreadable_world ''site'' f = Inl e)"
    by (simp add: sample_runs(2,3)) (simp add: more_samples sample_defs)
  with exit_codes [where w = unreadable_world and opts = sample_options and folder = "''site''"
      and p = sample_plan
      and ?s1.0 = "\<lparr>trail = [Scan ''site'', Fetch [] ''pk''], collected = [], ticks = 0\<rparr>"
      and t = "[local_file ''/a'' ''ha'']" and d = "[]"
      and ?s2.0 = "\<lparr>trail = [Scan ''site'', Fetch [] ''pk'', Head ''https://s/ha''],
          collected = [], ticks = 0\<rparr>"]
  have 3: "exit_code (fst (uploadCommand unreadable_world sample_options ''site'')) = Some 1"
    by blast
  have "prepare published_world sample_options ''site'' start_state =
        (Val (sample_plan\<lparr>remoteFiles := [remote_file ''/a'' ''ha'']\<rparr>),
         \<lparr>trail = [Scan ''site'', Fetch [] ''pk''], collected = [], ticks = 0\<rparr>) \<and>
      compareFiles (localFiles (sample_plan\<lparr>remoteFiles := [remote_file ''/a'' ''ha'']\<rparr>))
        (remoteFiles (sample_plan\<lparr>remoteFiles := [remote_file ''/a'' ''ha'']\<rparr>)) =
        ([], [local_file ''/a'' ''ha''], []) \<and>
      \<not> force sample_options \<and>
      (nonInteractive sample_options \<or> confirmPrompt published_world = Inr False)"
    using published_prepare published_compare by (simp add: sample_options_def)
  with exit_codes [where w = published_world and opts = sample_options and folder = "''site''"
      and p' = "sample_plan\<lparr>remoteFiles := [remote_file ''/a'' ''ha'']\<rparr>"
      and ?s1' = "\<lparr>trail = [Scan ''site'', Fetch [] ''pk''], collected = [], ticks = 0\<rparr>"
      and existing = "[local_file ''/a'' ''ha'']"]
  have 4: "exit_code (fst (uploadCommand published_world sample_options ''site'')) = Some 0"
    by blast
  have "transfer sample_world sample_options ''site'' start_state =
      (Val (sample_plan, []), snd (transfer sample_world sample_options ''site'' start_state))"
    using sample_runs(4) by (simp add: prod_eq_iff)
  with exit_codes [where w = sample_world and opts = sample_options and folder = "''site''"
      and reached = "(sample_plan, [])"
      and ?s3.0 = "snd (transfer sample_world sample_options ''site'' start_state)"]
  have "exit_code (fst (uploadCommand sample_world sample_options ''site'')) = Some 0 \<or>
      fst (uploadCommand sample_world sample_options ''site'') = Hung"
    by blast
  with sample_runs(5)
  have 5: "exit_code (fst (uploadCommand sample_world sample_options ''site'')) = Some 0"
    by blast
  from 0 1 2 3 4 5 show ?thesis by blast
qed

end
